theory Spec2Isabelle
  imports Complex_Main "HOL-Library.AList"
begin

section \<open>Arrays, errors and the random generator\<close>

text \<open>
  The two notebooks compute with one-dimensional numpy arrays of floats. An array is a
  list of numbers; the arithmetic is that of the real numbers. Rounding is outside this
  development, and so are the infinities and the not-a-number of float64: nothing here
  says whether a value of the program is finite.
\<close>

type_synonym array = "real list"

datatype error =
    NameError string
  | KeyError string
  | ValueError
  | InvalidArgument
  | SingularMatrixError

text \<open>
  The generator behind \<^verbatim>\<open>noise\<close> is an unbounded sequence of draws; a call takes the
  next \<open>n\<close> of them and leaves the rest for the next call.
\<close>

type_synonym rng = "nat \<Rightarrow> real"

text \<open>
  Modelled from the spec: \<^verbatim>\<open>noise\<close> is imported from \<^verbatim>\<open>custom\<close>, a module that is not
  among the sources. The spec calls it the noise-generation function that produces \<open>N\<close>
  independent draws; here it returns the next \<open>n\<close> draws of the generator together with
  the advanced generator.
\<close>

definition noise :: "nat \<Rightarrow> rng \<Rightarrow> array \<times> rng" where
  "noise n g = (map g [0..<n], \<lambda>i. g (n + i))"

text \<open>\<^verbatim>\<open>c * xs\<close> for a Python number \<open>c\<close> and an array \<open>xs\<close>.\<close>

definition scale :: "real \<Rightarrow> array \<Rightarrow> array" where
  "scale c xs = map (\<lambda>v. c * v) xs"

text \<open>
  \<^verbatim>\<open>xs + ys\<close> for two arrays: elementwise on equal shapes, an array of one element is
  broadcast, any other pair of shapes raises \<^verbatim>\<open>ValueError\<close>.
\<close>

definition add_arrays :: "array \<Rightarrow> array \<Rightarrow> error + array" where
  "add_arrays xs ys =
     (if length xs = length ys then Inr (map2 (+) xs ys)
      else if length xs = 1 then Inr (map (\<lambda>v. hd xs + v) ys)
      else if length ys = 1 then Inr (map (\<lambda>v. v + hd ys) xs)
      else Inl ValueError)"

section \<open>The structural equations of a simulation cell\<close>

text \<open>
  The kernel's state while a cell runs: the names bound so far and the generator.
\<close>

record kernel =
  names :: "string \<rightharpoonup> array"
  gen :: rng

text \<open>
  Every line of a simulation cell has the shape
  \<^verbatim>\<open>v = c1 * p1 + ... + cm * pm + s * noise(n)\<close>, with integer literals \<open>c\<close> and \<open>s\<close>;
  a line written \<^verbatim>\<open>v = ... + noise(n)\<close> has \<open>s = 1\<close>. A line is recorded as its target,
  its products in the order written, and the factor of its noise.
\<close>

datatype equation = Equation (target: string) (terms: "(int \<times> string) list") (noise_scale: int)

text \<open>One product \<^verbatim>\<open>c * p\<close>: reading a name that is not bound raises \<^verbatim>\<open>NameError\<close>.\<close>

definition term_value :: "(string \<rightharpoonup> array) \<Rightarrow> int \<times> string \<Rightarrow> error + array" where
  "term_value env t =
     (case env (snd t) of
        None \<Rightarrow> Inl (NameError (snd t))
      | Some xs \<Rightarrow> Inr (scale (of_int (fst t)) xs))"

text \<open>The products are added from left to right, as Python evaluates \<^verbatim>\<open>+\<close>.\<close>

fun sum_terms :: "(string \<rightharpoonup> array) \<Rightarrow> array \<Rightarrow> (int \<times> string) list \<Rightarrow> error + array" where
  "sum_terms env acc [] = Inr acc"
| "sum_terms env acc (t # ts) =
     (case term_value env t of
        Inl e \<Rightarrow> Inl e
      | Inr v \<Rightarrow> (case add_arrays acc v of Inl e \<Rightarrow> Inl e | Inr acc' \<Rightarrow> sum_terms env acc' ts))"

text \<open>
  The right-hand side: the products first, then the noise array is added last. A line
  without products is the noise array alone.
\<close>

fun rhs :: "(string \<rightharpoonup> array) \<Rightarrow> (int \<times> string) list \<Rightarrow> array \<Rightarrow> error + array" where
  "rhs env [] nz = Inr nz"
| "rhs env (t # ts) nz =
     (case term_value env t of
        Inl e \<Rightarrow> Inl e
      | Inr v \<Rightarrow> (case sum_terms env v ts of Inl e \<Rightarrow> Inl e | Inr s \<Rightarrow> add_arrays s nz))"

text \<open>
  Running one line: the products are evaluated in the current names, \<^verbatim>\<open>noise(n)\<close> is
  called once, and the target is bound to the sum.
\<close>

definition assign :: "nat \<Rightarrow> equation \<Rightarrow> kernel \<Rightarrow> error + kernel" where
  "assign n e k =
     (case rhs (names k) (terms e) (scale (of_int (noise_scale e)) (fst (noise n (gen k)))) of
        Inl err \<Rightarrow> Inl err
      | Inr v \<Rightarrow> Inr \<lparr>names = (names k)(target e \<mapsto> v), gen = snd (noise n (gen k))\<rparr>)"

text \<open>The lines of a cell run in order; the first error stops the cell.\<close>

fun run_equations :: "nat \<Rightarrow> equation list \<Rightarrow> kernel \<Rightarrow> error + kernel" where
  "run_equations n [] k = Inr k"
| "run_equations n (e # es) k =
     (case assign n e k of Inl err \<Rightarrow> Inl err | Inr k' \<Rightarrow> run_equations n es k')"

section \<open>Sample tables\<close>

text \<open>
  A \<^verbatim>\<open>pandas.DataFrame\<close> built from a dictionary of arrays: the columns in the order of
  the dictionary, each with its name.
\<close>

type_synonym table = "(string \<times> array) list"

text \<open>
  \<^verbatim>\<open>dict(c=c, a=a, ...)\<close>: every keyword is bound to the value of the variable of the
  same name, in the order written.
\<close>

fun collect :: "(string \<rightharpoonup> array) \<Rightarrow> string list \<Rightarrow> error + (string \<times> array) list" where
  "collect env [] = Inr []"
| "collect env (v # vs) =
     (case env v of
        None \<Rightarrow> Inl (NameError v)
      | Some xs \<Rightarrow> (case collect env vs of Inl e \<Rightarrow> Inl e | Inr d \<Rightarrow> Inr ((v, xs) # d)))"

text \<open>\<^verbatim>\<open>pd.DataFrame(data)\<close> refuses arrays of different lengths.\<close>

definition DataFrame :: "(string \<times> array) list \<Rightarrow> error + table" where
  "DataFrame d =
     (if list_all (\<lambda>c. length (snd c) = length (snd (hd d))) d then Inr d else Inl ValueError)"

definition columns :: "table \<Rightarrow> string list" where
  "columns t = map fst t"

definition nrows :: "table \<Rightarrow> nat" where
  "nrows t = (case t of [] \<Rightarrow> 0 | c # _ \<Rightarrow> length (snd c))"

text \<open>\<^verbatim>\<open>df[v]\<close> raises \<^verbatim>\<open>KeyError\<close> for a name that is not a column.\<close>

definition getitem :: "table \<Rightarrow> string \<Rightarrow> error + array" where
  "getitem t v = (case map_of t v of None \<Rightarrow> Inl (KeyError v) | Some xs \<Rightarrow> Inr xs)"

text \<open>
  \<^verbatim>\<open>df[v] = xs\<close> replaces the column \<open>v\<close> where it stands, or appends it as the last
  column when the table has no such column.
\<close>

definition setitem :: "table \<Rightarrow> string \<Rightarrow> array \<Rightarrow> table" where
  "setitem t v xs = AList.update v xs t"

text \<open>
  The value of column \<open>v\<close> in row \<open>j\<close>, for stating properties of a table; it is used
  only for columns the table has and rows in range.
\<close>

definition cell :: "table \<Rightarrow> string \<Rightarrow> nat \<Rightarrow> real" where
  "cell t v j = (case map_of t v of None \<Rightarrow> 0 | Some xs \<Rightarrow> xs ! j)"

text \<open>
  A simulation cell: the equations run in a fresh namespace, then the named variables
  are collected into the sample table. The generator is returned as the cell leaves it.
\<close>

definition simulate :: "nat \<Rightarrow> equation list \<Rightarrow> string list \<Rightarrow> rng \<Rightarrow> error + table \<times> rng" where
  "simulate n eqs cols g =
     (case run_equations n eqs \<lparr>names = Map.empty, gen = g\<rparr> of
        Inl e \<Rightarrow> Inl e
      | Inr k \<Rightarrow>
          (case collect (names k) cols of
             Inl e \<Rightarrow> Inl e
           | Inr d \<Rightarrow> (case DataFrame d of Inl e \<Rightarrow> Inl e | Inr t \<Rightarrow> Inr (t, gen k))))"

section \<open>Graphs\<close>

text \<open>
  \<^verbatim>\<open>nx.DiGraph\<close>: the nodes in the order they were first mentioned, and the edges in the
  order they were first added, each with its \<^verbatim>\<open>coeff\<close> attribute.
\<close>

record digraph =
  nodes :: "string list"
  edges :: "((string \<times> string) \<times> int) list"

definition DiGraph :: digraph where
  "DiGraph = \<lparr>nodes = [], edges = []\<rparr>"

definition add_node :: "string \<Rightarrow> string list \<Rightarrow> string list" where
  "add_node v vs = (if v \<in> set vs then vs else vs @ [v])"

text \<open>
  \<^verbatim>\<open>G.add_edge(u, v, coeff=c)\<close> adds the two nodes when they are new and stores the edge
  with its attribute; an edge that is already there gets the new attribute. Nothing is
  checked and nothing is raised.
\<close>

definition add_edge :: "string \<Rightarrow> string \<Rightarrow> int \<Rightarrow> digraph \<Rightarrow> digraph" where
  "add_edge u v c G =
     \<lparr>nodes = add_node v (add_node u (nodes G)), edges = AList.update (u, v) c (edges G)\<rparr>"

text \<open>A graph cell: \<^verbatim>\<open>G = nx.DiGraph()\<close> followed by its \<^verbatim>\<open>add_edge\<close> calls in order.\<close>

definition graph_cell :: "(string \<times> string \<times> int) list \<Rightarrow> digraph" where
  "graph_cell calls = fold (\<lambda>(u, v, c). add_edge u v c) calls DiGraph"

text \<open>The parents of a node, each with the coefficient of its edge.\<close>

definition in_edges :: "digraph \<Rightarrow> string \<Rightarrow> (string \<times> int) list" where
  "in_edges G v = map (\<lambda>e. (fst (fst e), snd e)) (filter (\<lambda>e. snd (fst e) = v) (edges G))"

definition roots :: "digraph \<Rightarrow> string list" where
  "roots G = filter (\<lambda>v. in_edges G v = []) (nodes G)"

fun position :: "'a list \<Rightarrow> 'a \<Rightarrow> nat" where
  "position [] x = 0"
| "position (y # ys) x = (if x = y then 0 else Suc (position ys x))"

text \<open>
  An order of evaluation is topological for a graph when it lists every node once and
  every edge leads from an earlier node to a later one.
\<close>

definition is_topological :: "string list \<Rightarrow> digraph \<Rightarrow> bool" where
  "is_topological order G =
     (distinct order \<and> set order = set (nodes G) \<and>
      list_all (\<lambda>e. position order (fst (fst e)) < position order (snd (fst e))) (edges G))"

text \<open>The roots come first when they fill the first places of the order.\<close>

definition roots_first :: "string list \<Rightarrow> digraph \<Rightarrow> bool" where
  "roots_first order G = (set (take (length (roots G)) order) = set (roots G))"

text \<open>
  A directed cycle: a non-empty list of nodes in which every node has an edge to the
  next one and the last has an edge to the first.
\<close>

definition is_cycle :: "digraph \<Rightarrow> string list \<Rightarrow> bool" where
  "is_cycle G p =
     (p \<noteq> [] \<and> list_all (\<lambda>e. e \<in> set (map fst (edges G))) (zip p (tl p @ [hd p])))"

text \<open>
  A cell reads only names that earlier lines have bound, and binds each name once:
  \<open>bound\<close> are the names bound before the first line.
\<close>

fun well_scoped :: "string list \<Rightarrow> equation list \<Rightarrow> bool" where
  "well_scoped bound [] = True"
| "well_scoped bound (e # es) =
     (list_all (\<lambda>t. snd t \<in> set bound) (terms e) \<and> target e \<notin> set bound \<and>
      well_scoped (target e # bound) es)"

section \<open>Notebook 01: linear simulation\<close>

text \<open>The graph cell of the notebook.\<close>

definition edge_calls01 :: "(string \<times> string \<times> int) list" where
  "edge_calls01 =
     [(''c'', ''x'', 5), (''a'', ''x'', 2), (''a'', ''k'', -3), (''x'', ''f'', 6),
      (''x'', ''d'', -2), (''d'', ''g'', -8), (''k'', ''y'', 3), (''d'', ''y'', 5),
      (''y'', ''h'', -4)]"

definition G01 :: digraph where
  "G01 = graph_cell edge_calls01"

text \<open>
  The simulation cell, line by line:
  \<^verbatim>\<open>c = noise(n)\<close>, \<^verbatim>\<open>a = noise(n)\<close>, \<^verbatim>\<open>x = 5 * c + 2 * a + noise(n)\<close>,
  \<^verbatim>\<open>k = -3 * a + noise(n)\<close>, \<^verbatim>\<open>f = 6 * x + noise(n)\<close>, \<^verbatim>\<open>d = -2 * x + noise(n)\<close>,
  \<^verbatim>\<open>g = -8 * d + noise(n)\<close>, \<^verbatim>\<open>y = 3 * k + 5 * d + noise(n)\<close>, \<^verbatim>\<open>h = -4 * y + noise(n)\<close>.
\<close>

definition equations01 :: "equation list" where
  "equations01 =
     [Equation ''c'' [] 1,
      Equation ''a'' [] 1,
      Equation ''x'' [(5, ''c''), (2, ''a'')] 1,
      Equation ''k'' [(-3, ''a'')] 1,
      Equation ''f'' [(6, ''x'')] 1,
      Equation ''d'' [(-2, ''x'')] 1,
      Equation ''g'' [(-8, ''d'')] 1,
      Equation ''y'' [(3, ''k''), (5, ''d'')] 1,
      Equation ''h'' [(-4, ''y'')] 1]"

text \<open>\<^verbatim>\<open>data = dict(c=c, a=a, x=x, k=k, f=f, d=d, g=g, y=y, h=h)\<close>.\<close>

definition columns01 :: "string list" where
  "columns01 = [''c'', ''a'', ''x'', ''k'', ''f'', ''d'', ''g'', ''y'', ''h'']"

definition simulate01 :: "nat \<Rightarrow> rng \<Rightarrow> error + table \<times> rng" where
  "simulate01 n g = simulate n equations01 columns01 g"

section \<open>Notebook 02: instrument variables\<close>

definition gamma :: int where "gamma = 2"
definition alpha :: int where "alpha = 3"
definition beta :: int where "beta = 1"
definition delta :: int where "delta = -1"

text \<open>
  The model cell: \<^verbatim>\<open>h = 2 * noise(size)\<close>, \<^verbatim>\<open>i = 4 * noise(size)\<close>,
  \<^verbatim>\<open>x = delta * i + beta * h + 2 * noise(size)\<close>,
  \<^verbatim>\<open>y = gamma * h + alpha * x + 3 * noise(size)\<close>.
\<close>

definition equations02 :: "equation list" where
  "equations02 =
     [Equation ''h'' [] 2,
      Equation ''i'' [] 4,
      Equation ''x'' [(delta, ''i''), (beta, ''h'')] 2,
      Equation ''y'' [(gamma, ''h''), (alpha, ''x'')] 3]"

definition edge_calls02 :: "(string \<times> string \<times> int) list" where
  "edge_calls02 =
     [(''x'', ''y'', alpha), (''h'', ''y'', gamma), (''h'', ''x'', beta), (''i'', ''x'', delta)]"

definition G02 :: digraph where
  "G02 = graph_cell edge_calls02"

text \<open>\<^verbatim>\<open>data = dict(x=x, i=i, h=h, y=y)\<close>.\<close>

definition columns02 :: "string list" where
  "columns02 = [''x'', ''i'', ''h'', ''y'']"

definition simulate02 :: "nat \<Rightarrow> rng \<Rightarrow> error + table \<times> rng" where
  "simulate02 n g = simulate n equations02 columns02 g"

section \<open>Regression cells and the two-stage estimation\<close>

text \<open>
  The fitted parameters \<^verbatim>\<open>results.params\<close>: the names of the terms of the formula, each
  with its coefficient.
\<close>

type_synonym params = "(string \<times> real) list"

text \<open>
  \<^verbatim>\<open>OLS.from_formula(formula, data=df).fit().params\<close> for one formula, as a function of
  the table it is given. The estimator belongs to the statsmodels library; the cells below
  take it as a parameter. It reads the table and returns the parameters or raises.
\<close>

type_synonym fit = "table \<Rightarrow> error + params"

text \<open>
  The notebook's state between cells: the table \<^verbatim>\<open>df\<close> and the variable \<^verbatim>\<open>results\<close>,
  unbound until the first regression cell has run.
\<close>

record session =
  df :: table
  results :: "params option"

text \<open>
  A regression cell: \<^verbatim>\<open>model = OLS.from_formula(formula, data=df)\<close>,
  \<^verbatim>\<open>results = model.fit()\<close>.
\<close>

definition regression_cell :: "fit \<Rightarrow> session \<Rightarrow> error + session" where
  "regression_cell f s =
     (case f (df s) of Inl e \<Rightarrow> Inl e | Inr ps \<Rightarrow> Inr (s\<lparr>results := Some ps\<rparr>))"

text \<open>
  The name of the derived column: the Greek letter delta followed by \<open>i\<close>, as the bytes
  of its UTF-8 encoding.
\<close>

definition delta_i :: string where
  "delta_i = [CHR 0xCE, CHR 0xB4, CHR ''i'']"

text \<open>
  The cell between the two regressions: \<^verbatim>\<open>df[delta_i] = df['i'] * results.params['i']\<close>.
\<close>

definition derived_column_cell :: "session \<Rightarrow> error + session" where
  "derived_column_cell s =
     (case getitem (df s) ''i'' of
        Inl e \<Rightarrow> Inl e
      | Inr icol \<Rightarrow>
          (case results s of
             None \<Rightarrow> Inl (NameError ''results'')
           | Some ps \<Rightarrow>
               (case map_of ps ''i'' of
                  None \<Rightarrow> Inl (KeyError ''i'')
                | Some d \<Rightarrow> Inr (s\<lparr>df := setitem (df s) delta_i (map (\<lambda>v. v * d) icol)\<rparr>))))"

text \<open>
  The three cells of the section Mechanics, in order: the regression \<^verbatim>\<open>x ~ i\<close>, the
  derived column, the regression of \<open>y\<close> on the derived column. The argument \<open>est\<close> gives,
  for a response and a predictor, the fit of the formula \<^verbatim>\<open>response ~ predictor\<close>.
\<close>

definition two_stage :: "(string \<Rightarrow> string \<Rightarrow> fit) \<Rightarrow> session \<Rightarrow> error + session" where
  "two_stage est s =
     (case regression_cell (est ''x'' ''i'') s of
        Inl e \<Rightarrow> Inl e
      | Inr s1 \<Rightarrow>
          (case derived_column_cell s1 of
             Inl e \<Rightarrow> Inl e
           | Inr s2 \<Rightarrow> regression_cell (est ''y'' delta_i) s2))"

text \<open>
  Notebook 02 from top to bottom: the model cell, the table, the regression \<^verbatim>\<open>y ~ x\<close>,
  then the two-stage estimation.
\<close>

definition notebook02 :: "(string \<Rightarrow> string \<Rightarrow> fit) \<Rightarrow> nat \<Rightarrow> rng \<Rightarrow> error + session \<times> rng" where
  "notebook02 est n g =
     (case simulate02 n g of
        Inl e \<Rightarrow> Inl e
      | Inr (t, g') \<Rightarrow>
          (case regression_cell (est ''y'' ''x'') \<lparr>df = t, results = None\<rparr> of
             Inl e \<Rightarrow> Inl e
           | Inr s \<Rightarrow> (case two_stage est s of Inl e \<Rightarrow> Inl e | Inr s' \<Rightarrow> Inr (s', g'))))"

section \<open>Least squares with one predictor\<close>

definition mean :: "array \<Rightarrow> real" where
  "mean xs = sum_list xs / real (length xs)"

definition centred :: "array \<Rightarrow> array" where
  "centred xs = map (\<lambda>v. v - mean xs) xs"

text \<open>The sum of the products of the deviations from the means.\<close>

definition sxy :: "array \<Rightarrow> array \<Rightarrow> real" where
  "sxy xs ys = sum_list (map2 (*) (centred xs) (centred ys))"

text \<open>The sum of squared residuals of the line \<open>a + b * x\<close>.\<close>

definition sse :: "array \<Rightarrow> array \<Rightarrow> real \<Rightarrow> real \<Rightarrow> real" where
  "sse xs ys a b = sum_list (map2 (\<lambda>x y. (y - (a + b * x))\<^sup>2) xs ys)"

text \<open>
  Modelled from the spec: the estimator is statsmodels' \<^verbatim>\<open>OLS\<close>, which is not among the
  sources. The spec describes it as the least-squares coefficient vector minimising the
  sum of squared residuals, by the normal equations, with an implicit intercept, and
  says that a rank-deficient design must signal \<^verbatim>\<open>SingularMatrixError\<close>. With one
  predictor \<open>xs\<close> and the intercept, the design is rank-deficient exactly when the
  deviations of \<open>xs\<close> from its mean all vanish; otherwise the normal equations have the
  solution below, the intercept first and the slope second.
\<close>

definition least_squares :: "array \<Rightarrow> array \<Rightarrow> error + real \<times> real" where
  "least_squares xs ys =
     (if sxy xs xs = 0 then Inl SingularMatrixError
      else Inr (mean ys - sxy xs ys / sxy xs xs * mean xs, sxy xs ys / sxy xs xs))"

text \<open>
  Modelled from the spec: the fit of \<^verbatim>\<open>response ~ predictor\<close> on a table. A name that is
  not a column is the spec's \<^verbatim>\<open>InvalidArgument\<close>; the parameters are named
  \<^verbatim>\<open>Intercept\<close> and after the predictor.
\<close>

definition ols_fit :: "string \<Rightarrow> string \<Rightarrow> fit" where
  "ols_fit resp pred t =
     (case map_of t resp of
        None \<Rightarrow> Inl InvalidArgument
      | Some ys \<Rightarrow>
          (case map_of t pred of
             None \<Rightarrow> Inl InvalidArgument
           | Some xs \<Rightarrow>
               (case least_squares xs ys of
                  Inl e \<Rightarrow> Inl e
                | Inr ab \<Rightarrow> Inr [(''Intercept'', fst ab), (pred, snd ab)])))"

text \<open>A small session for the examples: a table of three rows and no fit yet.\<close>

definition example_session :: session where
  "example_session =
     \<lparr>df = [(''x'', [1, 3, 2]), (''i'', [1, 2, 3]), (''h'', [0, 1, 0]), (''y'', [3, 5, 10])],
      results = None\<rparr>"

section \<open>Properties of the simulation cells\<close>

subsection \<open>Arrays and the generator\<close>

lemma length_noise: "length (fst (noise n g)) = n"
  by (simp add: noise_def)

lemma length_scale: "length (scale c xs) = length xs"
  by (simp add: scale_def)

lemma nth_scale: "j < length xs \<Longrightarrow> scale c xs ! j = c * xs ! j"
  by (simp add: scale_def)

lemma add_arrays_same:
  "length xs = length ys \<Longrightarrow> add_arrays xs ys = Inr (map2 (+) xs ys)"
  by (simp add: add_arrays_def)

lemma snd_noise: "snd (noise n g) = (\<lambda>i. g (n + i))"
  by (simp add: noise_def)

lemma nth_noise: "j < n \<Longrightarrow> fst (noise n g) ! j = g j"
  by (simp add: noise_def)

lemma sum_terms_ok:
  assumes "\<forall>t\<in>set ts. \<exists>xs. env (snd t) = Some xs \<and> length xs = length acc"
  shows "\<exists>r. sum_terms env acc ts = Inr r \<and> length r = length acc \<and>
           (\<forall>j<length acc. r ! j = acc ! j + (\<Sum>t\<leftarrow>ts. of_int (fst t) * the (env (snd t)) ! j))"
  using assms
proof (induction ts arbitrary: acc)
  case Nil
  then show ?case by simp
next
  case (Cons t ts)
  from Cons.prems obtain xs where xs: "env (snd t) = Some xs" "length xs = length acc"
    by auto
  let ?acc' = "map2 (+) acc (scale (of_int (fst t)) xs)"
  have len: "length ?acc' = length acc"
    using xs by (simp add: length_scale)
  have "\<forall>t\<in>set ts. \<exists>xs. env (snd t) = Some xs \<and> length xs = length ?acc'"
    using Cons.prems len by simp
  from Cons.IH [OF this] obtain r where r: "sum_terms env ?acc' ts = Inr r"
    "length r = length ?acc'"
    "\<forall>j<length ?acc'. r ! j = ?acc' ! j + (\<Sum>t\<leftarrow>ts. of_int (fst t) * the (env (snd t)) ! j)"
    by blast
  have step: "sum_terms env acc (t # ts) = Inr r"
    using xs r(1) by (simp add: term_value_def add_arrays_same length_scale)
  have "\<forall>j<length acc. r ! j = acc ! j + (\<Sum>t\<leftarrow>t # ts. of_int (fst t) * the (env (snd t)) ! j)"
  proof (intro allI impI)
    fix j assume j: "j < length acc"
    then have "?acc' ! j = acc ! j + of_int (fst t) * xs ! j"
      using xs by (simp add: length_scale nth_scale)
    then show "r ! j = acc ! j + (\<Sum>t\<leftarrow>t # ts. of_int (fst t) * the (env (snd t)) ! j)"
      using r(3) j len xs by simp
  qed
  with step r(2) len show ?case by simp
qed

lemma rhs_ok:
  assumes "\<forall>t\<in>set ts. \<exists>xs. env (snd t) = Some xs \<and> length xs = length nz"
  shows "\<exists>r. rhs env ts nz = Inr r \<and> length r = length nz \<and>
           (\<forall>j<length nz. r ! j = (\<Sum>t\<leftarrow>ts. of_int (fst t) * the (env (snd t)) ! j) + nz ! j)"
proof (cases ts)
  case Nil
  then show ?thesis by simp
next
  case (Cons t ts')
  from assms Cons obtain xs where xs: "env (snd t) = Some xs" "length xs = length nz"
    by auto
  let ?v = "scale (of_int (fst t)) xs"
  have lv: "length ?v = length nz" using xs by (simp add: length_scale)
  have "\<forall>t\<in>set ts'. \<exists>xs. env (snd t) = Some xs \<and> length xs = length ?v"
    using assms Cons lv by simp
  from sum_terms_ok [OF this] obtain s where s: "sum_terms env ?v ts' = Inr s"
    "length s = length ?v"
    "\<forall>j<length ?v. s ! j = ?v ! j + (\<Sum>t\<leftarrow>ts'. of_int (fst t) * the (env (snd t)) ! j)"
    by blast
  have eq: "rhs env ts nz = Inr (map2 (+) s nz)"
    using Cons xs s(1,2) lv by (simp add: term_value_def add_arrays_same)
  have "\<forall>j<length nz. map2 (+) s nz ! j =
          (\<Sum>t\<leftarrow>ts. of_int (fst t) * the (env (snd t)) ! j) + nz ! j"
    using s(2,3) lv xs Cons by (simp add: nth_scale)
  with eq s(2) lv show ?thesis by simp
qed

subsection \<open>One line, then a whole cell\<close>

text \<open>
  A line whose parents are all bound to arrays of \<open>n\<close> values binds its target to an
  array of \<open>n\<close> values: row by row the weighted sum of the parents plus the scaled draw.
\<close>

lemma assign_ok:
  assumes "\<forall>t\<in>set (terms e). \<exists>xs. names k (snd t) = Some xs \<and> length xs = n"
  shows "\<exists>v. assign n e k = Inr \<lparr>names = (names k)(target e \<mapsto> v), gen = (\<lambda>i. gen k (n + i))\<rparr> \<and>
           length v = n \<and>
           (\<forall>j<n. v ! j = (\<Sum>t\<leftarrow>terms e. of_int (fst t) * the (names k (snd t)) ! j)
                         + of_int (noise_scale e) * gen k j)"
proof -
  let ?nz = "scale (of_int (noise_scale e)) (fst (noise n (gen k)))"
  have ln: "length ?nz = n" by (simp add: length_scale length_noise)
  then have "\<forall>t\<in>set (terms e). \<exists>xs. names k (snd t) = Some xs \<and> length xs = length ?nz"
    using assms by simp
  from rhs_ok [OF this] obtain r where r: "rhs (names k) (terms e) ?nz = Inr r"
    "length r = length ?nz"
    "\<forall>j<length ?nz. r ! j = (\<Sum>t\<leftarrow>terms e. of_int (fst t) * the (names k (snd t)) ! j) + ?nz ! j"
    by blast
  have "assign n e k = Inr \<lparr>names = (names k)(target e \<mapsto> r), gen = (\<lambda>i. gen k (n + i))\<rparr>"
    using r(1) by (simp add: assign_def snd_noise)
  moreover have "\<forall>j<n. ?nz ! j = of_int (noise_scale e) * gen k j"
    by (simp add: nth_scale length_noise nth_noise)
  ultimately show ?thesis using r(2,3) ln by auto
qed

lemma run_equations_ok:
  assumes "well_scoped bound es"
    and "\<forall>p\<in>set bound. \<exists>xs. names k p = Some xs \<and> length xs = n"
  shows "\<exists>k'. run_equations n es k = Inr k' \<and>
           gen k' = (\<lambda>i. gen k (length es * n + i)) \<and>
           (\<forall>p\<in>set bound. names k' p = names k p) \<and>
           (\<forall>i<length es. \<exists>col. names k' (target (es ! i)) = Some col \<and> length col = n \<and>
              (\<forall>j<n. col ! j =
                 (\<Sum>t\<leftarrow>terms (es ! i). of_int (fst t) * the (names k' (snd t)) ! j)
                 + of_int (noise_scale (es ! i)) * gen k (i * n + j)))"
  using assms
proof (induction es arbitrary: k bound)
  case Nil
  then show ?case by simp
next
  case (Cons e es)
  have scoped: "\<forall>t\<in>set (terms e). snd t \<in> set bound" and fresh: "target e \<notin> set bound"
    and rest: "well_scoped (target e # bound) es"
    using Cons.prems(1) by (simp_all add: list_all_iff)
  have "\<forall>t\<in>set (terms e). \<exists>xs. names k (snd t) = Some xs \<and> length xs = n"
    using scoped Cons.prems(2) by blast
  from assign_ok [OF this] obtain v where
    v: "assign n e k = Inr \<lparr>names = (names k)(target e \<mapsto> v), gen = (\<lambda>i. gen k (n + i))\<rparr>"
    and lv: "length v = n"
    and vj: "\<forall>j<n. v ! j = (\<Sum>t\<leftarrow>terms e. of_int (fst t) * the (names k (snd t)) ! j)
                         + of_int (noise_scale e) * gen k j"
    by blast
  let ?k1 = "\<lparr>names = (names k)(target e \<mapsto> v), gen = (\<lambda>i. gen k (n + i))\<rparr>"
  have pre: "\<forall>p\<in>set (target e # bound). \<exists>xs. names ?k1 p = Some xs \<and> length xs = n"
    using Cons.prems(2) lv by simp
  from Cons.IH [OF rest pre] obtain k' where
    run: "run_equations n es ?k1 = Inr k'"
    and g': "gen k' = (\<lambda>i. gen ?k1 (length es * n + i))"
    and keep: "\<forall>p\<in>set (target e # bound). names k' p = names ?k1 p"
    and cols: "\<forall>i<length es. \<exists>col. names k' (target (es ! i)) = Some col \<and> length col = n \<and>
              (\<forall>j<n. col ! j =
                 (\<Sum>t\<leftarrow>terms (es ! i). of_int (fst t) * the (names k' (snd t)) ! j)
                 + of_int (noise_scale (es ! i)) * gen ?k1 (i * n + j))"
    by blast
  have r1: "run_equations n (e # es) k = Inr k'"
    using v run by simp
  have r2: "gen k' = (\<lambda>i. gen k (length (e # es) * n + i))"
    using g' by (simp add: add.assoc)
  have old: "\<forall>p\<in>set bound. names k' p = names k p"
    using keep fresh by auto
  have r4: "\<forall>i<length (e # es). \<exists>col. names k' (target ((e # es) ! i)) = Some col \<and> length col = n \<and>
              (\<forall>j<n. col ! j =
                 (\<Sum>t\<leftarrow>terms ((e # es) ! i). of_int (fst t) * the (names k' (snd t)) ! j)
                 + of_int (noise_scale ((e # es) ! i)) * gen k (i * n + j))"
  proof (intro allI impI)
    fix i assume i: "i < length (e # es)"
    show "\<exists>col. names k' (target ((e # es) ! i)) = Some col \<and> length col = n \<and>
              (\<forall>j<n. col ! j =
                 (\<Sum>t\<leftarrow>terms ((e # es) ! i). of_int (fst t) * the (names k' (snd t)) ! j)
                 + of_int (noise_scale ((e # es) ! i)) * gen k (i * n + j))"
    proof (cases i)
      case 0
      have here: "names k' (target e) = Some v"
        using keep by simp
      have same: "(\<Sum>t\<leftarrow>terms e. of_int (fst t) * the (names k' (snd t)) ! j)
                 = (\<Sum>t\<leftarrow>terms e. of_int (fst t) * the (names k (snd t)) ! j)" for j
        using scoped old by (intro arg_cong [where f = sum_list] map_cong) auto
      show ?thesis
        using 0 here lv vj same by simp
    next
      case (Suc i')
      then have "i' < length es" using i by simp
      with cols obtain col where c: "names k' (target (es ! i')) = Some col" "length col = n"
        "\<forall>j<n. col ! j =
                 (\<Sum>t\<leftarrow>terms (es ! i'). of_int (fst t) * the (names k' (snd t)) ! j)
                 + of_int (noise_scale (es ! i')) * gen ?k1 (i' * n + j)"
        by blast
      have "gen ?k1 (i' * n + j) = gen k (i * n + j)" for j
        using Suc by (simp add: add.assoc)
      with c show ?thesis using Suc by simp
    qed
  qed
  from r1 r2 old r4 show ?case by blast
qed

subsection \<open>From the namespace to the table\<close>

lemma collect_ok:
  "\<forall>v\<in>set vs. env v \<noteq> None \<Longrightarrow> collect env vs = Inr (map (\<lambda>v. (v, the (env v))) vs)"
  by (induction vs) auto

lemma DataFrame_ok:
  "\<forall>c\<in>set d. length (snd c) = n \<Longrightarrow> DataFrame d = Inr d"
  by (cases d) (auto simp: DataFrame_def list_all_iff)

lemma cell_collected:
  "v \<in> set vs \<Longrightarrow> cell (map (\<lambda>v. (v, the (env v))) vs) v j = the (env v) ! j"
  by (simp add: cell_def map_of_map_restrict)

lemma well_scoped_parents:
  "well_scoped bound es \<Longrightarrow> e \<in> set es \<Longrightarrow> t \<in> set (terms e) \<Longrightarrow>
     snd t \<in> set bound \<union> target ` set es"
proof (induction es arbitrary: bound)
  case Nil
  then show ?case by simp
next
  case (Cons a es)
  show ?case
  proof (cases "e = a")
    case True
    with Cons.prems show ?thesis by (auto simp: list_all_iff)
  next
    case False
    with Cons.prems have "e \<in> set es" "well_scoped (target a # bound) es" by auto
    from Cons.IH [OF this(2) this(1) Cons.prems(3)] show ?thesis by auto
  qed
qed

lemma simulate_structural:
  assumes ws: "well_scoped [] eqs" and cols: "set cols = target ` set eqs"
  shows "\<exists>t. simulate n eqs cols g = Inr (t, \<lambda>i. g (length eqs * n + i)) \<and>
           columns t = cols \<and> (\<forall>c\<in>set t. length (snd c) = n) \<and>
           (\<forall>i<length eqs. \<forall>j<n.
              cell t (target (eqs ! i)) j =
                (\<Sum>tm\<leftarrow>terms (eqs ! i). of_int (fst tm) * cell t (snd tm) j)
                + of_int (noise_scale (eqs ! i)) * g (i * n + j))"
proof -
  let ?k0 = "\<lparr>names = Map.empty, gen = g\<rparr>"
  have "\<forall>p\<in>set []. \<exists>xs. names ?k0 p = Some xs \<and> length xs = n" by simp
  from run_equations_ok [OF ws this] obtain k' where
    run: "run_equations n eqs ?k0 = Inr k'"
    and g': "gen k' = (\<lambda>i. g (length eqs * n + i))"
    and vals: "\<forall>i<length eqs. \<exists>col. names k' (target (eqs ! i)) = Some col \<and> length col = n \<and>
              (\<forall>j<n. col ! j =
                 (\<Sum>t\<leftarrow>terms (eqs ! i). of_int (fst t) * the (names k' (snd t)) ! j)
                 + of_int (noise_scale (eqs ! i)) * g (i * n + j))"
    by auto
  have bound: "\<exists>col. names k' v = Some col \<and> length col = n" if "v \<in> set cols" for v
  proof -
    from that cols obtain i where "i < length eqs" "v = target (eqs ! i)"
      by (auto simp: in_set_conv_nth)
    with vals show ?thesis by blast
  qed
  let ?t = "map (\<lambda>v. (v, the (names k' v))) cols"
  have c1: "collect (names k') cols = Inr ?t"
    using bound by (intro collect_ok) auto
  have lens: "\<forall>c\<in>set ?t. length (snd c) = n"
    using bound by fastforce
  have c2: "DataFrame ?t = Inr ?t"
    using lens by (rule DataFrame_ok)
  have sim: "simulate n eqs cols g = Inr (?t, \<lambda>i. g (length eqs * n + i))"
    using run c1 c2 g' by (simp add: simulate_def)
  have eqn: "\<forall>i<length eqs. \<forall>j<n.
              cell ?t (target (eqs ! i)) j =
                (\<Sum>tm\<leftarrow>terms (eqs ! i). of_int (fst tm) * cell ?t (snd tm) j)
                + of_int (noise_scale (eqs ! i)) * g (i * n + j)"
  proof (intro allI impI)
    fix i j assume i: "i < length eqs" and j: "j < n"
    have tin: "target (eqs ! i) \<in> set cols"
      using i cols by auto
    have pin: "snd tm \<in> set cols" if "tm \<in> set (terms (eqs ! i))" for tm
      using well_scoped_parents [OF ws _ that] i cols by auto
    from vals i obtain col where col: "names k' (target (eqs ! i)) = Some col"
      "\<forall>j<n. col ! j =
                 (\<Sum>t\<leftarrow>terms (eqs ! i). of_int (fst t) * the (names k' (snd t)) ! j)
                 + of_int (noise_scale (eqs ! i)) * g (i * n + j)"
      by blast
    have "(\<Sum>tm\<leftarrow>terms (eqs ! i). of_int (fst tm) * cell ?t (snd tm) j)
          = (\<Sum>t\<leftarrow>terms (eqs ! i). of_int (fst t) * the (names k' (snd t)) ! j)"
      using pin by (intro arg_cong [where f = sum_list] map_cong) (auto simp: cell_collected)
    then show "cell ?t (target (eqs ! i)) j =
                (\<Sum>tm\<leftarrow>terms (eqs ! i). of_int (fst tm) * cell ?t (snd tm) j)
                + of_int (noise_scale (eqs ! i)) * g (i * n + j)"
      using col j tin by (simp add: cell_collected)
  qed
  have "columns ?t = cols"
    by (simp add: columns_def comp_def)
  with sim lens eqn show ?thesis by blast
qed

subsection \<open>Notebook 01: the graph and the equations\<close>

lemma G01_value:
  "G01 = \<lparr>nodes = [''c'', ''x'', ''a'', ''k'', ''f'', ''d'', ''g'', ''y'', ''h''],
          edges = [((''c'', ''x''), 5), ((''a'', ''x''), 2), ((''a'', ''k''), -3),
                   ((''x'', ''f''), 6), ((''x'', ''d''), -2), ((''d'', ''g''), -8),
                   ((''k'', ''y''), 3), ((''d'', ''y''), 5), ((''y'', ''h''), -4)]\<rparr>"
  by (simp add: G01_def graph_cell_def edge_calls01_def add_edge_def add_node_def DiGraph_def)

lemma less9_cases:
  "i < 9 \<Longrightarrow> i = 0 \<or> i = 1 \<or> i = 2 \<or> i = 3 \<or> i = 4 \<or> i = 5 \<or> i = 6 \<or> i = 7 \<or> i = (8::nat)"
  by arith

lemma equations01_match:
  assumes "i < 9"
  shows "target (equations01 ! i) = columns01 ! i
       \<and> map (\<lambda>tm. (snd tm, fst tm)) (terms (equations01 ! i)) = in_edges G01 (columns01 ! i)
       \<and> noise_scale (equations01 ! i) = 1
       \<and> position columns01 (columns01 ! i) = i"
  using less9_cases [OF assms]
  by (elim disjE) (simp_all add: equations01_def columns01_def in_edges_def G01_value)

lemma nodes01_columns: "v \<in> set (nodes G01) \<Longrightarrow> \<exists>i<9. v = columns01 ! i"
proof -
  assume "v \<in> set (nodes G01)"
  then have "v \<in> set columns01"
    by (auto simp: G01_value columns01_def)
  then obtain i where "i < length columns01" "v = columns01 ! i"
    by (auto simp: in_set_conv_nth)
  moreover have "length columns01 = 9"
    by (simp add: columns01_def)
  ultimately show ?thesis by auto
qed

lemma well_scoped01: "well_scoped [] equations01"
  by (simp add: equations01_def)

lemma targets01: "set columns01 = target ` set equations01"
  by (auto simp: equations01_def columns01_def)

lemma length_equations01: "length equations01 = 9"
  by (simp add: equations01_def)

text \<open>
  C1. In the table of notebook 01 every node of \<open>G\<close> has, in every row, the value
  given by its parents in \<open>G\<close>: the sum over its incoming edges of the edge's \<^verbatim>\<open>coeff\<close>
  times the parent's value in that row, plus a draw of the generator that no other node
  and no other row uses. A node without incoming edges is that draw alone, the sum being
  empty. Line by line, the products of the hand-written equation are the incoming edges
  of its target with their \<^verbatim>\<open>coeff\<close> attributes, and the noise is not scaled.
\<close>

theorem structural_equations01:
  "\<exists>t. simulate01 n g = Inr (t, \<lambda>i. g (9 * n + i)) \<and>
        (\<forall>v\<in>set (nodes G01). \<forall>j<n.
           cell t v j = (\<Sum>pc\<leftarrow>in_edges G01 v. of_int (snd pc) * cell t (fst pc) j)
                        + g (position columns01 v * n + j)) \<and>
        (\<forall>v\<in>set (roots G01). \<forall>j<n. cell t v j = g (position columns01 v * n + j)) \<and>
        (\<forall>v\<in>set (nodes G01). \<forall>w\<in>set (nodes G01). \<forall>j<n. \<forall>l<n.
           position columns01 v * n + j = position columns01 w * n + l \<longrightarrow> v = w \<and> j = l) \<and>
        (\<forall>e\<in>set equations01.
           map (\<lambda>tm. (snd tm, fst tm)) (terms e) = in_edges G01 (target e) \<and> noise_scale e = 1)"
proof -
  from simulate_structural [OF well_scoped01 targets01, of n g] obtain t where
    sim: "simulate n equations01 columns01 g = Inr (t, \<lambda>i. g (length equations01 * n + i))"
    and eqn: "\<forall>i<length equations01. \<forall>j<n.
              cell t (target (equations01 ! i)) j =
                (\<Sum>tm\<leftarrow>terms (equations01 ! i). of_int (fst tm) * cell t (snd tm) j)
                + of_int (noise_scale (equations01 ! i)) * g (i * n + j)"
    by blast
  note len = length_equations01
  have main: "cell t v j = (\<Sum>pc\<leftarrow>in_edges G01 v. of_int (snd pc) * cell t (fst pc) j)
                        + g (position columns01 v * n + j)"
    if v: "v \<in> set (nodes G01)" and j: "j < n" for v j
  proof -
    from nodes01_columns [OF v] obtain i where i: "i < 9" "v = columns01 ! i" by blast
    note m = equations01_match [OF i(1)]
    have "in_edges G01 v = map (\<lambda>tm. (snd tm, fst tm)) (terms (equations01 ! i))"
      using m i(2) by simp
    then have "(\<Sum>pc\<leftarrow>in_edges G01 v. of_int (snd pc) * cell t (fst pc) j)
          = (\<Sum>tm\<leftarrow>terms (equations01 ! i). of_int (fst tm) * cell t (snd tm) j)"
      by (simp add: comp_def)
    moreover have "cell t (target (equations01 ! i)) j =
                (\<Sum>tm\<leftarrow>terms (equations01 ! i). of_int (fst tm) * cell t (snd tm) j)
                + of_int (noise_scale (equations01 ! i)) * g (i * n + j)"
      using eqn i(1) j len by simp
    ultimately show ?thesis
      using m i(2) by simp
  qed
  have root: "cell t v j = g (position columns01 v * n + j)"
    if v: "v \<in> set (roots G01)" and j: "j < n" for v j
  proof -
    from v have "v \<in> set (nodes G01)" "in_edges G01 v = []"
      by (simp_all add: roots_def)
    with main [OF this(1) j] show ?thesis by simp
  qed
  have apart: "v = w \<and> j = l"
    if v: "v \<in> set (nodes G01)" and w: "w \<in> set (nodes G01)" and j: "j < n" and l: "l < n"
      and same: "position columns01 v * n + j = position columns01 w * n + l" for v w j l
  proof -
    from nodes01_columns [OF v] obtain a where a: "a < 9" "v = columns01 ! a" by blast
    from nodes01_columns [OF w] obtain b where b: "b < 9" "w = columns01 ! b" by blast
    have "a * n + j = b * n + l"
      using same a b equations01_match by simp
    then have "(a * n + j) div n = (b * n + l) div n" "(a * n + j) mod n = (b * n + l) mod n"
      by simp_all
    then have "a = b" "j = l"
      using j l by simp_all
    with a b show ?thesis by simp
  qed
  have lines: "map (\<lambda>tm. (snd tm, fst tm)) (terms e) = in_edges G01 (target e) \<and> noise_scale e = 1"
    if "e \<in> set equations01" for e
  proof -
    from that obtain i where "i < length equations01" "e = equations01 ! i"
      by (auto simp: in_set_conv_nth)
    with equations01_match [of i] len show ?thesis by simp
  qed
  from sim len main root apart lines show ?thesis
    unfolding simulate01_def by (intro exI [of _ t] conjI ballI allI impI) simp_all
qed

theorem structural_equations01_witness:
  "\<exists>t. simulate01 2 (\<lambda>i. real i) = Inr (t, \<lambda>i. real (18 + i)) \<and>
       cell t ''y'' 1 = 3 * cell t ''k'' 1 + 5 * cell t ''d'' 1 + 15 \<and>
       cell t ''a'' 0 = 2"
proof -
  from structural_equations01 [of 2 "\<lambda>i. real i"] obtain t where
    sim: "simulate01 2 (\<lambda>i. real i) = Inr (t, \<lambda>i. real (9 * 2 + i))"
    and eqn: "\<forall>v\<in>set (nodes G01). \<forall>j<2.
           cell t v j = (\<Sum>pc\<leftarrow>in_edges G01 v. of_int (snd pc) * cell t (fst pc) j)
                        + real (position columns01 v * 2 + j)"
    by blast
  have "''y'' \<in> set (nodes G01)" "''a'' \<in> set (nodes G01)"
    by (simp_all add: G01_value)
  with eqn have "cell t ''y'' 1 = (\<Sum>pc\<leftarrow>in_edges G01 ''y''. of_int (snd pc) * cell t (fst pc) 1)
                        + real (position columns01 ''y'' * 2 + 1)"
    and "cell t ''a'' 0 = (\<Sum>pc\<leftarrow>in_edges G01 ''a''. of_int (snd pc) * cell t (fst pc) 0)
                        + real (position columns01 ''a'' * 2 + 0)"
    by simp_all
  then have "cell t ''y'' 1 = 3 * cell t ''k'' 1 + 5 * cell t ''d'' 1 + 15" "cell t ''a'' 0 = 2"
    by (simp_all add: in_edges_def G01_value columns01_def)
  with sim show ?thesis by simp
qed

subsection \<open>Topological orders and cycles\<close>

text \<open>Along a path whose every step goes up, the end is not below the start.\<close>

lemma rising_path:
  "p \<noteq> [] \<Longrightarrow> \<forall>e\<in>set (zip p (tl p)). f (fst e) < f (snd e) \<Longrightarrow> f (hd p) \<le> (f (last p) :: nat)"
proof (induction p rule: list_nonempty_induct)
  case (single x)
  then show ?case by simp
next
  case (cons x xs)
  then obtain y ys where xs: "xs = y # ys" by (cases xs) auto
  with cons.prems have "f x < f y" "\<forall>e\<in>set (zip xs (tl xs)). f (fst e) < f (snd e)"
    by auto
  with cons.IH xs show ?case by auto
qed

lemma zip_closing:
  "p \<noteq> [] \<Longrightarrow> zip p (tl p @ [hd p]) = zip p (tl p) @ [(last p, hd p)]"
proof (induction p rule: list_nonempty_induct)
  case (single x)
  then show ?case by simp
next
  case (cons x xs)
  have "zip xs (tl xs @ [a]) = zip xs (tl xs) @ [(last xs, a)]" for a
    using cons.hyps
  proof (induction xs rule: list_nonempty_induct)
    case (single y)
    then show ?case by simp
  next
    case (cons y ys)
    then show ?case by (cases ys) auto
  qed
  then show ?case
    using cons.hyps by (cases xs) auto
qed

lemma topological_no_cycle:
  assumes "is_topological order G"
  shows "\<not> is_cycle G p"
proof
  assume cyc: "is_cycle G p"
  let ?f = "position order"
  have up: "?f (fst e) < ?f (snd e)" if "e \<in> set (map fst (edges G))" for e
    using assms that by (auto simp: is_topological_def list_all_iff)
  from cyc have ne: "p \<noteq> []" and steps: "\<forall>e\<in>set (zip p (tl p @ [hd p])). e \<in> set (map fst (edges G))"
    by (simp_all add: is_cycle_def list_all_iff)
  have all_up: "\<forall>e\<in>set (zip p (tl p) @ [(last p, hd p)]). ?f (fst e) < ?f (snd e)"
  proof
    fix e assume "e \<in> set (zip p (tl p) @ [(last p, hd p)])"
    then have "e \<in> set (zip p (tl p @ [hd p]))"
      by (simp only: zip_closing [OF ne])
    with steps have "e \<in> set (map fst (edges G))" by blast
    then show "?f (fst e) < ?f (snd e)" by (rule up)
  qed
  then have "\<forall>e\<in>set (zip p (tl p)). ?f (fst e) < ?f (snd e)" and wrap: "?f (last p) < ?f (hd p)"
    by auto
  from rising_path [OF ne this(1)] wrap show False by simp
qed

lemma topological01: "is_topological (map target equations01) G01"
  by (auto simp: is_topological_def equations01_def G01_value)

subsection \<open>The state in which a line runs\<close>

lemma run_equations_append:
  "run_equations n (xs @ ys) k =
     (case run_equations n xs k of Inl err \<Rightarrow> Inl err | Inr k1 \<Rightarrow> run_equations n ys k1)"
  by (induction xs arbitrary: k) (auto split: sum.splits)

lemma well_scoped_append:
  "well_scoped bound (xs @ ys) \<longleftrightarrow>
     well_scoped bound xs \<and> well_scoped (rev (map target xs) @ bound) ys"
  by (induction xs arbitrary: bound) auto

lemma assign_names:
  "assign n e k = Inr k' \<Longrightarrow> \<exists>v. names k' = (names k)(target e \<mapsto> v)"
  by (auto simp: assign_def split: sum.splits)

lemma run_equations_dom:
  "run_equations n es k = Inr k' \<Longrightarrow> dom (names k') = dom (names k) \<union> target ` set es"
proof (induction es arbitrary: k)
  case Nil
  then show ?case by simp
next
  case (Cons e es)
  from Cons.prems obtain k1 where k1: "assign n e k = Inr k1" and rest: "run_equations n es k1 = Inr k'"
    by (auto split: sum.splits)
  from assign_names [OF k1] have "dom (names k1) = insert (target e) (dom (names k))"
    by auto
  with Cons.IH [OF rest] show ?case by auto
qed

text \<open>
  In a cell that reads only earlier targets, line \<open>i\<close> runs in the state the lines before
  it have left: that state binds exactly their targets, among them every parent of the
  line, each to an array of \<open>n\<close> values; the line then binds its own target, and the rest
  of the cell goes on from there.
\<close>

lemma line_by_line:
  assumes ws: "well_scoped [] es" and i: "i < length es"
  shows "\<exists>k k'. run_equations n (take i es) \<lparr>names = Map.empty, gen = g\<rparr> = Inr k \<and>
           dom (names k) = set (map target (take i es)) \<and>
           (\<forall>tm\<in>set (terms (es ! i)). \<exists>xs. names k (snd tm) = Some xs \<and> length xs = n) \<and>
           names k (target (es ! i)) = None \<and>
           assign n (es ! i) k = Inr k' \<and>
           dom (names k') = insert (target (es ! i)) (dom (names k)) \<and>
           run_equations n es \<lparr>names = Map.empty, gen = g\<rparr>
             = run_equations n (drop (Suc i) es) k'"
proof -
  let ?k0 = "\<lparr>names = Map.empty, gen = g\<rparr>"
  let ?pre = "take i es" and ?e = "es ! i" and ?post = "drop (Suc i) es"
  have split: "es = ?pre @ ?e # ?post"
    using i by (rule id_take_nth_drop)
  have "well_scoped [] (?pre @ ?e # ?post)"
    using ws split by simp
  then have ws_pre: "well_scoped [] ?pre"
    and reads: "\<forall>tm\<in>set (terms ?e). snd tm \<in> set (map target ?pre)"
    and fresh: "target ?e \<notin> set (map target ?pre)"
    unfolding well_scoped_append by (simp_all add: list_all_iff)
  have "\<forall>p\<in>set []. \<exists>xs. names ?k0 p = Some xs \<and> length xs = n"
    by simp
  from run_equations_ok [OF ws_pre this] obtain k where
    run: "run_equations n ?pre ?k0 = Inr k"
    and vals: "\<forall>j<length ?pre. \<exists>col. names k (target (?pre ! j)) = Some col \<and> length col = n"
    by blast
  have dk: "dom (names k) = set (map target ?pre)"
    using run_equations_dom [OF run] by simp
  have parents: "\<forall>tm\<in>set (terms ?e). \<exists>xs. names k (snd tm) = Some xs \<and> length xs = n"
  proof
    fix tm assume "tm \<in> set (terms ?e)"
    with reads have "snd tm \<in> set (map target ?pre)" by blast
    then obtain j where "j < length ?pre" "snd tm = target (?pre ! j)"
      by (auto simp: in_set_conv_nth)
    with vals show "\<exists>xs. names k (snd tm) = Some xs \<and> length xs = n"
      by auto
  qed
  have unbound: "names k (target ?e) = None"
    using fresh dk by (auto simp: dom_def)
  from assign_ok [OF parents] obtain k' where k': "assign n ?e k = Inr k'"
    by blast
  from assign_names [OF k'] have dk': "dom (names k') = insert (target ?e) (dom (names k))"
    by auto
  have "run_equations n (?pre @ ?e # ?post) ?k0 = run_equations n ?post k'"
    using run k' by (simp add: run_equations_append)
  then have "run_equations n es ?k0 = run_equations n ?post k'"
    using split by simp
  with run dk parents unbound k' dk' show ?thesis by blast
qed

lemma run_binds_targets:
  assumes ws: "well_scoped [] es"
  shows "\<exists>k. run_equations n es \<lparr>names = Map.empty, gen = g\<rparr> = Inr k \<and>
           dom (names k) = target ` set es \<and>
           (\<forall>v\<in>target ` set es. \<exists>xs. names k v = Some xs \<and> length xs = n)"
proof -
  let ?k0 = "\<lparr>names = Map.empty, gen = g\<rparr>"
  have "\<forall>p\<in>set []. \<exists>xs. names ?k0 p = Some xs \<and> length xs = n"
    by simp
  from run_equations_ok [OF ws this] obtain k where
    run: "run_equations n es ?k0 = Inr k"
    and vals: "\<forall>j<length es. \<exists>col. names k (target (es ! j)) = Some col \<and> length col = n"
    by blast
  have "\<exists>xs. names k v = Some xs \<and> length xs = n" if "v \<in> target ` set es" for v
  proof -
    from that obtain j where "j < length es" "v = target (es ! j)"
      by (auto simp: in_set_conv_nth)
    with vals show ?thesis by auto
  qed
  moreover have "dom (names k) = target ` set es"
    using run_equations_dom [OF run] by simp
  ultimately show ?thesis using run by blast
qed

lemma nodes01_targets: "set (nodes G01) = target ` set equations01"
  by (auto simp: G01_value equations01_def)

text \<open>
  C3. The lines of the simulation cell of notebook 01 assign \<open>c, a, x, k, f, d, g, y, h\<close> in
  this order. The order is topological for \<open>G\<close>, the nodes without parents come first, and
  every line reads only names that earlier lines have assigned. When the cell runs in a
  fresh namespace, for every sample count and generator, line \<open>i\<close> runs in the state left
  by the lines before it: that state binds exactly their targets, every parent of the
  line is bound in it to an array of \<open>n\<close> values, and the target of the line is not bound
  yet; the line succeeds and binds its target, and the cell goes on with the lines
  after it. At the end the cell has bound exactly the nodes of \<open>G\<close>, each to \<open>n\<close> values.
\<close>

theorem evaluation_order01:
  "map target equations01 = [''c'', ''a'', ''x'', ''k'', ''f'', ''d'', ''g'', ''y'', ''h''] \<and>
   is_topological (map target equations01) G01 \<and>
   roots_first (map target equations01) G01 \<and>
   (\<forall>i<length equations01. \<forall>tm\<in>set (terms (equations01 ! i)).
      snd tm \<in> set (map target (take i equations01))) \<and>
   (\<forall>n g. \<forall>i<length equations01. \<exists>k k'.
      run_equations n (take i equations01) \<lparr>names = Map.empty, gen = g\<rparr> = Inr k \<and>
      dom (names k) = set (map target (take i equations01)) \<and>
      (\<forall>tm\<in>set (terms (equations01 ! i)). \<exists>xs. names k (snd tm) = Some xs \<and> length xs = n) \<and>
      names k (target (equations01 ! i)) = None \<and>
      assign n (equations01 ! i) k = Inr k' \<and>
      dom (names k') = insert (target (equations01 ! i)) (dom (names k)) \<and>
      run_equations n equations01 \<lparr>names = Map.empty, gen = g\<rparr>
        = run_equations n (drop (Suc i) equations01) k') \<and>
   (\<forall>n g. \<exists>k. run_equations n equations01 \<lparr>names = Map.empty, gen = g\<rparr> = Inr k \<and>
      dom (names k) = set (nodes G01) \<and>
      (\<forall>v\<in>set (nodes G01). \<exists>xs. names k v = Some xs \<and> length xs = n))"
proof (intro conjI)
  show "map target equations01 = [''c'', ''a'', ''x'', ''k'', ''f'', ''d'', ''g'', ''y'', ''h'']"
    by (simp add: equations01_def)
  show "is_topological (map target equations01) G01"
    by (rule topological01)
  show "roots_first (map target equations01) G01"
    by (auto simp: roots_first_def roots_def in_edges_def equations01_def G01_value)
  show "\<forall>i<length equations01. \<forall>tm\<in>set (terms (equations01 ! i)).
      snd tm \<in> set (map target (take i equations01))"
  proof (intro allI impI)
    fix i assume "i < length equations01"
    then have "i < 9" by (simp add: length_equations01)
    from less9_cases [OF this]
    show "\<forall>tm\<in>set (terms (equations01 ! i)). snd tm \<in> set (map target (take i equations01))"
      by (elim disjE) (simp_all add: equations01_def take_Cons')
  qed
  show "\<forall>n g. \<forall>i<length equations01. \<exists>k k'.
      run_equations n (take i equations01) \<lparr>names = Map.empty, gen = g\<rparr> = Inr k \<and>
      dom (names k) = set (map target (take i equations01)) \<and>
      (\<forall>tm\<in>set (terms (equations01 ! i)). \<exists>xs. names k (snd tm) = Some xs \<and> length xs = n) \<and>
      names k (target (equations01 ! i)) = None \<and>
      assign n (equations01 ! i) k = Inr k' \<and>
      dom (names k') = insert (target (equations01 ! i)) (dom (names k)) \<and>
      run_equations n equations01 \<lparr>names = Map.empty, gen = g\<rparr>
        = run_equations n (drop (Suc i) equations01) k'"
    using line_by_line [OF well_scoped01] by blast
  show "\<forall>n g. \<exists>k. run_equations n equations01 \<lparr>names = Map.empty, gen = g\<rparr> = Inr k \<and>
      dom (names k) = set (nodes G01) \<and>
      (\<forall>v\<in>set (nodes G01). \<exists>xs. names k v = Some xs \<and> length xs = n)"
    using run_binds_targets [OF well_scoped01] unfolding nodes01_targets by blast
qed

theorem evaluation_order01_witness:
  "position (map target equations01) ''k'' < position (map target equations01) ''y'' \<and>
   (\<exists>k k'. run_equations 3 (take 7 equations01) \<lparr>names = Map.empty, gen = (\<lambda>i. real i)\<rparr> = Inr k \<and>
      dom (names k) = {''c'', ''a'', ''x'', ''k'', ''f'', ''d'', ''g''} \<and>
      (\<exists>xs. names k ''k'' = Some xs \<and> length xs = 3) \<and>
      (\<exists>xs. names k ''d'' = Some xs \<and> length xs = 3) \<and>
      names k ''y'' = None \<and>
      assign 3 (Equation ''y'' [(3, ''k''), (5, ''d'')] 1) k = Inr k' \<and>
      dom (names k') = {''c'', ''a'', ''x'', ''k'', ''f'', ''d'', ''g'', ''y''}) \<and>
   (\<exists>k. run_equations 3 equations01 \<lparr>names = Map.empty, gen = (\<lambda>i. real i)\<rparr> = Inr k \<and>
      (\<exists>xs. names k ''h'' = Some xs \<and> length xs = 3))"
proof -
  note all = evaluation_order01
  note top = all [THEN conjunct2, THEN conjunct1]
  note lines = all [THEN conjunct2, THEN conjunct2, THEN conjunct2, THEN conjunct2, THEN conjunct1]
  note final = all [THEN conjunct2, THEN conjunct2, THEN conjunct2, THEN conjunct2, THEN conjunct2]
  have "((''k'', ''y''), 3) \<in> set (edges G01)"
    by (simp add: G01_value)
  with top have first: "position (map target equations01) ''k'' < position (map target equations01) ''y''"
    unfolding is_topological_def list_all_iff by fastforce
  have seven: "7 < length equations01"
    by (simp add: equations01_def)
  have line: "equations01 ! 7 = Equation ''y'' [(3, ''k''), (5, ''d'')] 1"
    by (simp add: equations01_def)
  have before: "set (map target (take 7 equations01)) = {''c'', ''a'', ''x'', ''k'', ''f'', ''d'', ''g''}"
    by (simp add: equations01_def)
  from lines [rule_format, OF seven, where n = 3 and g = "\<lambda>i. real i"] obtain k k' where
    run: "run_equations 3 (take 7 equations01) \<lparr>names = Map.empty, gen = (\<lambda>i. real i)\<rparr> = Inr k"
    and dk: "dom (names k) = set (map target (take 7 equations01))"
    and par: "\<forall>tm\<in>set (terms (equations01 ! 7)). \<exists>xs. names k (snd tm) = Some xs \<and> length xs = 3"
    and unb: "names k (target (equations01 ! 7)) = None"
    and asg: "assign 3 (equations01 ! 7) k = Inr k'"
    and dk': "dom (names k') = insert (target (equations01 ! 7)) (dom (names k))"
    by (elim exE conjE)
  have second: "\<exists>k k'. run_equations 3 (take 7 equations01) \<lparr>names = Map.empty, gen = (\<lambda>i. real i)\<rparr> = Inr k \<and>
      dom (names k) = {''c'', ''a'', ''x'', ''k'', ''f'', ''d'', ''g''} \<and>
      (\<exists>xs. names k ''k'' = Some xs \<and> length xs = 3) \<and>
      (\<exists>xs. names k ''d'' = Some xs \<and> length xs = 3) \<and>
      names k ''y'' = None \<and>
      assign 3 (Equation ''y'' [(3, ''k''), (5, ''d'')] 1) k = Inr k' \<and>
      dom (names k') = {''c'', ''a'', ''x'', ''k'', ''f'', ''d'', ''g'', ''y''}"
  proof (rule exI [of _ k], rule exI [of _ k'], intro conjI)
    show "run_equations 3 (take 7 equations01) \<lparr>names = Map.empty, gen = (\<lambda>i. real i)\<rparr> = Inr k"
      by (rule run)
    show "dom (names k) = {''c'', ''a'', ''x'', ''k'', ''f'', ''d'', ''g''}"
      using dk by (simp only: before)
    show "\<exists>xs. names k ''k'' = Some xs \<and> length xs = 3"
      using par by (simp add: line)
    show "\<exists>xs. names k ''d'' = Some xs \<and> length xs = 3"
      using par by (simp add: line)
    show "names k ''y'' = None"
      using unb by (simp add: line)
    show "assign 3 (Equation ''y'' [(3, ''k''), (5, ''d'')] 1) k = Inr k'"
      using asg by (simp only: line)
    have "dom (names k') = insert ''y'' {''c'', ''a'', ''x'', ''k'', ''f'', ''d'', ''g''}"
      using dk' dk by (simp only: before line equation.sel)
    then show "dom (names k') = {''c'', ''a'', ''x'', ''k'', ''f'', ''d'', ''g'', ''y''}"
      by (simp only: insert_commute)
  qed
  have "''h'' \<in> set (nodes G01)"
    by (simp add: G01_value)
  with final [rule_format, of 3 "\<lambda>i. real i"]
  have third: "\<exists>k. run_equations 3 equations01 \<lparr>names = Map.empty, gen = (\<lambda>i. real i)\<rparr> = Inr k \<and>
      (\<exists>xs. names k ''h'' = Some xs \<and> length xs = 3)"
    by blast
  from first second third show ?thesis by (intro conjI)
qed

subsection \<open>Notebook 02: the graph and the equations\<close>

lemma G02_value:
  "G02 = \<lparr>nodes = [''x'', ''y'', ''h'', ''i''],
          edges = [((''x'', ''y''), 3), ((''h'', ''y''), 2), ((''h'', ''x''), 1),
                   ((''i'', ''x''), -1)]\<rparr>"
  by (simp add: G02_def graph_cell_def edge_calls02_def add_edge_def add_node_def DiGraph_def
      alpha_def beta_def gamma_def delta_def)

lemma well_scoped02: "well_scoped [] equations02"
  by (simp add: equations02_def)

lemma targets02: "set columns02 = target ` set equations02"
  by (auto simp: equations02_def columns02_def)

lemma length_equations02: "length equations02 = 4"
  by (simp add: equations02_def)

lemma topological02: "is_topological (map target equations02) G02"
  by (auto simp: is_topological_def equations02_def G02_value)

text \<open>
  The model cell of notebook 02 and its graph agree in the same way, the noise of each
  node scaled by the factor written in its line. The graph lists the parents of a node
  in another order than the line does; the sums are equal.
\<close>

lemma less4_cases: "i < 4 \<Longrightarrow> i = 0 \<or> i = 1 \<or> i = 2 \<or> i = (3::nat)"
  by arith

lemma equations02_match:
  assumes "i < 4"
  shows "(\<Sum>pc\<leftarrow>in_edges G02 (target (equations02 ! i)). of_int (snd pc) * f (fst pc))
           = (\<Sum>tm\<leftarrow>terms (equations02 ! i). of_int (fst tm) * (f (snd tm) :: real))
       \<and> position (map target equations02) (target (equations02 ! i)) = i"
  using less4_cases [OF assms]
  by (elim disjE)
     (simp_all add: equations02_def in_edges_def G02_value alpha_def beta_def gamma_def delta_def)

lemma structural_equations02:
  "\<exists>t. simulate02 n g = Inr (t, \<lambda>i. g (4 * n + i)) \<and>
        (\<forall>e\<in>set equations02. \<forall>j<n.
           cell t (target e) j =
             (\<Sum>pc\<leftarrow>in_edges G02 (target e). of_int (snd pc) * cell t (fst pc) j)
             + of_int (noise_scale e) * g (position (map target equations02) (target e) * n + j))"
proof -
  from simulate_structural [OF well_scoped02 targets02, of n g] obtain t where
    sim: "simulate n equations02 columns02 g = Inr (t, \<lambda>i. g (length equations02 * n + i))"
    and eqn: "\<forall>i<length equations02. \<forall>j<n.
              cell t (target (equations02 ! i)) j =
                (\<Sum>tm\<leftarrow>terms (equations02 ! i). of_int (fst tm) * cell t (snd tm) j)
                + of_int (noise_scale (equations02 ! i)) * g (i * n + j)"
    by blast
  have "cell t (target e) j =
             (\<Sum>pc\<leftarrow>in_edges G02 (target e). of_int (snd pc) * cell t (fst pc) j)
             + of_int (noise_scale e) * g (position (map target equations02) (target e) * n + j)"
    if e: "e \<in> set equations02" and j: "j < n" for e j
  proof -
    from e obtain i where i: "i < length equations02" "e = equations02 ! i"
      by (auto simp: in_set_conv_nth)
    then have "i < 4"
      by (simp add: length_equations02)
    from equations02_match [OF this, of "\<lambda>v. cell t v j"] eqn i j
    show ?thesis by simp
  qed
  with sim show ?thesis
    by (auto simp: simulate02_def length_equations02)
qed

subsection \<open>Cycles are never looked for\<close>

lemma simulate_runs:
  assumes "well_scoped [] eqs" and "set cols = target ` set eqs"
  shows "\<exists>t. simulate n eqs cols g = Inr (t, \<lambda>i. g (length eqs * n + i))"
  using simulate_structural [OF assms, of n g] by blast

lemma upt_0_2: "[0..<2] = [0, 1]"
  by (simp add: numeral_2_eq_2 upt_rec)

lemma add_edge_stores: "((u, v), c) \<in> set (edges (add_edge u v c G))"
proof -
  have "map_of (AList.update (u, v) c (edges G)) (u, v) = Some c"
    by (simp add: update_conv')
  then show ?thesis
    by (simp add: add_edge_def map_of_SomeD)
qed

text \<open>
  C4, as the claim states it, fails: when the graph cell of notebook 01 is followed by
  \<^verbatim>\<open>G.add_edge('h', 'c', coeff=1)\<close> the graph holds the directed cycle
  \<open>c, x, d, y, h\<close>, and the simulation cell still returns its table.
\<close>

theorem cyclic_graph_counterexample:
  "is_cycle (graph_cell (edge_calls01 @ [(''h'', ''c'', 1)])) [''c'', ''x'', ''d'', ''y'', ''h''] \<and>
   map_sum id fst (simulate01 2 (\<lambda>i. real i)) =
     Inr [(''c'', [0, 1]), (''a'', [2, 3]), (''x'', [8, 16]), (''k'', [0, -2]),
          (''f'', [56, 105]), (''d'', [-6, -21]), (''g'', [60, 181]),
          (''y'', [-16, -96]), (''h'', [80, 401])]"
proof
  show "is_cycle (graph_cell (edge_calls01 @ [(''h'', ''c'', 1)])) [''c'', ''x'', ''d'', ''y'', ''h'']"
    by (simp add: is_cycle_def graph_cell_def edge_calls01_def add_edge_def add_node_def
        DiGraph_def)
  show "map_sum id fst (simulate01 2 (\<lambda>i. real i)) =
     Inr [(''c'', [0, 1]), (''a'', [2, 3]), (''x'', [8, 16]), (''k'', [0, -2]),
          (''f'', [56, 105]), (''d'', [-6, -21]), (''g'', [60, 181]),
          (''y'', [-16, -96]), (''h'', [80, 401])]"
    by (simp add: simulate01_def simulate_def equations01_def columns01_def assign_def
        term_value_def noise_def scale_def add_arrays_def DataFrame_def upt_0_2)
qed

text \<open>
  C4, amended. Neither notebook checks its edges for cycles, and there is no
  \<^verbatim>\<open>StructureError\<close>: \<^verbatim>\<open>add_edge\<close> stores every edge it is given, whatever the edge
  closes, and the simulation cells take no graph, so they return their tables for every
  sample count and generator. The graphs the two notebooks build have no directed
  cycle.
\<close>

theorem no_acyclicity_check:
  "((u, v), c) \<in> set (edges (add_edge u v c G)) \<and>
   (\<exists>t. simulate01 n g = Inr (t, \<lambda>i. g (9 * n + i))) \<and>
   (\<exists>t. simulate02 n g = Inr (t, \<lambda>i. g (4 * n + i))) \<and>
   \<not> is_cycle G01 p \<and> \<not> is_cycle G02 p"
proof (intro conjI)
  show "((u, v), c) \<in> set (edges (add_edge u v c G))"
    by (rule add_edge_stores)
  show "\<exists>t. simulate01 n g = Inr (t, \<lambda>i. g (9 * n + i))"
    using simulate_runs [OF well_scoped01 targets01, of n g]
    by (simp add: simulate01_def length_equations01)
  show "\<exists>t. simulate02 n g = Inr (t, \<lambda>i. g (4 * n + i))"
    using simulate_runs [OF well_scoped02 targets02, of n g]
    by (simp add: simulate02_def length_equations02)
  show "\<not> is_cycle G01 p"
    using topological01 by (rule topological_no_cycle)
  show "\<not> is_cycle G02 p"
    using topological02 by (rule topological_no_cycle)
qed

theorem no_acyclicity_check_witness:
  "((''h'', ''c''), 1) \<in> set (edges (add_edge ''h'' ''c'' 1 G01)) \<and>
   (\<exists>t. simulate01 1000 (\<lambda>i. real i) = Inr (t, \<lambda>i. real (9000 + i))) \<and>
   \<not> is_cycle G01 [''c'', ''x'', ''d'', ''y'', ''h'']"
  using no_acyclicity_check [of "''h''" "''c''" 1 G01 1000 "\<lambda>i. real i" "[''c'', ''x'', ''d'', ''y'', ''h'']"]
  by simp

subsection \<open>The shape of the table\<close>

text \<open>
  Rows and columns of the table: a cell whose lines read only earlier targets, with
  one column named for every target and no name twice, returns a table of \<open>n\<close> rows
  whose columns are exactly the names given, each once, each holding \<open>n\<close> values. Whether
  a value is finite is a question about float64, where a product or a sum can overflow
  to an infinity and a difference of infinities is not a number; the arrays here hold
  real numbers, so that question is not stated.
\<close>

lemma nrows_collected:
  "cols \<noteq> [] \<Longrightarrow> \<forall>c\<in>set t. length (snd c) = n \<Longrightarrow> columns t = cols \<Longrightarrow> nrows t = n"
  by (cases t) (auto simp: nrows_def columns_def)

lemma table_rows_columns:
  assumes "well_scoped [] eqs" and "set cols = target ` set eqs" and "distinct cols"
    and "cols \<noteq> []"
  shows "\<exists>t. simulate n eqs cols g = Inr (t, \<lambda>i. g (length eqs * n + i)) \<and>
           nrows t = n \<and> columns t = cols \<and> distinct (columns t) \<and>
           set (columns t) = target ` set eqs \<and>
           (\<forall>c\<in>set t. length (snd c) = n)"
proof -
  from simulate_structural [OF assms(1,2), of n g] obtain t where
    sim: "simulate n eqs cols g = Inr (t, \<lambda>i. g (length eqs * n + i))"
    and cs: "columns t = cols" and lens: "\<forall>c\<in>set t. length (snd c) = n"
    by blast
  have "nrows t = n"
    using assms(4) lens cs by (rule nrows_collected)
  with sim cs lens assms(2,3) show ?thesis by auto
qed

lemma table_rows_columns01:
  "\<exists>t. simulate01 n g = Inr (t, \<lambda>i. g (9 * n + i)) \<and> nrows t = n \<and>
        columns t = [''c'', ''a'', ''x'', ''k'', ''f'', ''d'', ''g'', ''y'', ''h''] \<and>
        set (columns t) = set (nodes G01) \<and>
        (\<forall>c\<in>set t. length (snd c) = n)"
proof -
  have "distinct columns01" "columns01 \<noteq> []"
    by (simp_all add: columns01_def)
  from table_rows_columns [OF well_scoped01 targets01 this, of n g]
  show ?thesis
    by (auto simp: simulate01_def length_equations01 nodes01_targets) (simp add: columns01_def)
qed

section \<open>Properties of the estimation\<close>

subsection \<open>Rescaling a predictor\<close>

lemma mean_scaled: "mean (map (\<lambda>v. v * d) xs) = mean xs * d"
proof -
  have "(\<Sum>v\<leftarrow>xs. v * d) = sum_list xs * d"
    by (simp add: sum_list_mult_const)
  then show ?thesis
    by (simp add: mean_def comp_def)
qed

lemma centred_scaled: "centred (map (\<lambda>v. v * d) xs) = map (\<lambda>v. v * d) (centred xs)"
  by (simp add: centred_def mean_scaled algebra_simps)

lemma sxy_scaled_left: "sxy (map (\<lambda>v. v * d) xs) ys = d * sxy xs ys"
proof -
  have "map2 (*) (map (\<lambda>v. v * d) as) bs = map (\<lambda>p. d * (fst p * snd p)) (zip as bs)"
    for as bs :: "real list"
    by (simp add: zip_map1 case_prod_unfold mult_ac)
  then show ?thesis
    by (simp add: sxy_def centred_scaled sum_list_const_mult case_prod_unfold)
qed

lemma sxy_scaled_right: "sxy xs (map (\<lambda>v. v * d) ys) = d * sxy xs ys"
proof -
  have "map2 (*) as (map (\<lambda>v. v * d) bs) = map (\<lambda>p. d * (fst p * snd p)) (zip as bs)"
    for as bs :: "real list"
    by (simp add: zip_map2 case_prod_unfold mult_ac)
  then show ?thesis
    by (simp add: sxy_def centred_scaled sum_list_const_mult case_prod_unfold)
qed

lemma sxy_scaled_both: "sxy (map (\<lambda>v. v * d) xs) (map (\<lambda>v. v * d) xs) = d * d * sxy xs xs"
  by (simp add: sxy_scaled_left sxy_scaled_right)

subsection \<open>Constant columns\<close>

lemma sxx_squares: "sxy xs xs = (\<Sum>v\<leftarrow>xs. (v - mean xs)\<^sup>2)"
  by (simp add: sxy_def centred_def zip_same_conv_map comp_def power2_eq_square)

lemma sxx_zero_iff: "sxy xs xs = 0 \<longleftrightarrow> (\<forall>v\<in>set xs. v = mean xs)"
proof -
  have "(\<Sum>v\<leftarrow>xs. (v - mean xs)\<^sup>2) = 0 \<longleftrightarrow> (\<forall>v\<in>set xs. (v - mean xs)\<^sup>2 = 0)"
    by (subst sum_list_nonneg_eq_0_iff) auto
  then show ?thesis
    by (simp add: sxx_squares)
qed

lemma not_constant_sxx:
  assumes "u \<in> set xs" and "v \<in> set xs" and "u \<noteq> v"
  shows "sxy xs xs \<noteq> 0"
proof
  assume "sxy xs xs = 0"
  then have "\<forall>w\<in>set xs. w = mean xs"
    by (simp add: sxx_zero_iff)
  with assms(1,2) have "u = mean xs" "v = mean xs"
    by blast+
  with assms(3) show False by simp
qed

subsection \<open>The fitted line minimises the squared residuals\<close>

lemma sum_deviations:
  "length xs = length ys \<Longrightarrow>
     (\<Sum>(x, y)\<leftarrow>zip xs ys. (x - p) * (y - q)) =
       (\<Sum>(x, y)\<leftarrow>zip xs ys. x * y) - q * sum_list xs - p * sum_list ys
       + real (length xs) * p * (q :: real)"
  by (induction xs ys rule: list_induct2) (simp_all add: algebra_simps)

lemma sxy_sums:
  assumes "length xs = length ys" and "xs \<noteq> []"
  shows "sxy xs ys = (\<Sum>(x, y)\<leftarrow>zip xs ys. x * y) - real (length xs) * mean xs * mean ys"
proof -
  have n: "real (length xs) \<noteq> 0" "real (length ys) \<noteq> 0"
    using assms by auto
  have "sxy xs ys = (\<Sum>(x, y)\<leftarrow>zip xs ys. (x - mean xs) * (y - mean ys))"
    by (simp add: sxy_def centred_def zip_map_map case_prod_unfold comp_def)
  also have "\<dots> = (\<Sum>(x, y)\<leftarrow>zip xs ys. x * y) - mean ys * sum_list xs - mean xs * sum_list ys
       + real (length xs) * mean xs * mean ys"
    using assms(1) by (rule sum_deviations)
  also have "sum_list xs = real (length xs) * mean xs"
    using n by (simp add: mean_def)
  also have "sum_list ys = real (length xs) * mean ys"
    using n assms(1) by (simp add: mean_def)
  finally show ?thesis
    by (simp add: algebra_simps)
qed

lemma residual_sums:
  "length xs = length ys \<Longrightarrow>
     (\<Sum>(x, y)\<leftarrow>zip xs ys. y - (a + b * x)) =
       sum_list ys - real (length xs) * a - b * sum_list xs \<and>
     (\<Sum>(x, y)\<leftarrow>zip xs ys. (y - (a + b * x)) * x) =
       (\<Sum>(x, y)\<leftarrow>zip xs ys. x * y) - a * sum_list xs - b * (\<Sum>(x, y)\<leftarrow>zip xs xs. x * (y :: real))"
  by (induction xs ys rule: list_induct2) (simp_all add: algebra_simps)

lemma sse_split:
  "length xs = length ys \<Longrightarrow>
     sse xs ys a b =
       sse xs ys a0 b0
       + 2 * ((a0 - a) * (\<Sum>(x, y)\<leftarrow>zip xs ys. y - (a0 + b0 * x))
              + (b0 - b) * (\<Sum>(x, y)\<leftarrow>zip xs ys. (y - (a0 + b0 * x)) * x))
       + (\<Sum>x\<leftarrow>xs. ((a0 - a) + (b0 - b) * x)\<^sup>2)"
  unfolding sse_def
  by (induction xs ys rule: list_induct2) (simp_all add: power2_eq_square algebra_simps)

text \<open>The normal equations: the residuals of the fitted line sum to zero, and so do
  their products with the predictor.\<close>

lemma normal_equations:
  assumes "length xs = length ys" and "least_squares xs ys = Inr (a0, b0)"
  shows "(\<Sum>(x, y)\<leftarrow>zip xs ys. y - (a0 + b0 * x)) = 0"
    and "(\<Sum>(x, y)\<leftarrow>zip xs ys. (y - (a0 + b0 * x)) * x) = 0"
proof -
  from assms(2) have sxx: "sxy xs xs \<noteq> 0"
    and b0: "b0 = sxy xs ys / sxy xs xs" and a0: "a0 = mean ys - b0 * mean xs"
    by (auto simp: least_squares_def split: if_splits)
  from sxx have ne: "xs \<noteq> []"
    by (auto simp: sxy_def centred_def)
  define n where "n = real (length xs)"
  have n: "n \<noteq> 0"
    using ne by (simp add: n_def)
  have sx: "sum_list xs = n * mean xs" and sy: "sum_list ys = n * mean ys"
    using n assms(1) by (simp_all add: mean_def n_def)
  define pxy where "pxy = (\<Sum>(x, y)\<leftarrow>zip xs ys. x * y)"
  define pxx where "pxx = (\<Sum>(x, y)\<leftarrow>zip xs xs. x * y)"
  have cxy: "sxy xs ys = pxy - n * mean xs * mean ys"
    using sxy_sums [OF assms(1) ne] by (simp add: pxy_def n_def)
  have cxx: "sxy xs xs = pxx - n * mean xs * mean xs"
    using sxy_sums [OF refl ne, of ] by (simp add: pxx_def n_def)
  note rs = residual_sums [OF assms(1), of a0 b0, folded pxy_def pxx_def n_def]
  show "(\<Sum>(x, y)\<leftarrow>zip xs ys. y - (a0 + b0 * x)) = 0"
    using rs by (simp add: sx sy a0 algebra_simps)
  have "b0 * sxy xs xs = sxy xs ys"
    using sxx by (simp add: b0)
  then have "b0 * (pxx - n * mean xs * mean xs) = pxy - n * mean xs * mean ys"
    by (simp only: cxy cxx)
  then show "(\<Sum>(x, y)\<leftarrow>zip xs ys. (y - (a0 + b0 * x)) * x) = 0"
    using rs by (simp add: sx sy a0 algebra_simps)
qed

lemma least_squares_minimises:
  assumes "length xs = length ys" and "least_squares xs ys = Inr (a0, b0)"
  shows "sse xs ys a0 b0 \<le> sse xs ys a b"
proof -
  have "sse xs ys a b = sse xs ys a0 b0 + (\<Sum>x\<leftarrow>xs. ((a0 - a) + (b0 - b) * x)\<^sup>2)"
    using sse_split [OF assms(1), of a b a0 b0] normal_equations [OF assms] by simp
  moreover have "0 \<le> (\<Sum>x\<leftarrow>xs. ((a0 - a) + (b0 - b) * x)\<^sup>2)"
    by (rule sum_list_nonneg) auto
  ultimately show ?thesis by simp
qed

lemma least_squares_unique:
  assumes "length xs = length ys" and "least_squares xs ys = Inr (a0, b0)"
    and "sse xs ys a b \<le> sse xs ys a0 b0"
  shows "a = a0 \<and> b = b0"
proof -
  have "sse xs ys a b = sse xs ys a0 b0 + (\<Sum>x\<leftarrow>xs. ((a0 - a) + (b0 - b) * x)\<^sup>2)"
    using sse_split [OF assms(1), of a b a0 b0] normal_equations [OF assms(1,2)] by simp
  with assms(3) have "(\<Sum>x\<leftarrow>xs. ((a0 - a) + (b0 - b) * x)\<^sup>2) \<le> 0"
    by simp
  moreover have "0 \<le> (\<Sum>x\<leftarrow>xs. ((a0 - a) + (b0 - b) * x)\<^sup>2)"
    by (rule sum_list_nonneg) auto
  ultimately have "(\<Sum>x\<leftarrow>xs. ((a0 - a) + (b0 - b) * x)\<^sup>2) = 0"
    by simp
  then have zero: "\<forall>x\<in>set xs. (a0 - a) + (b0 - b) * x = 0"
    by (subst (asm) sum_list_nonneg_eq_0_iff) auto
  from assms(2) have "sxy xs xs \<noteq> 0"
    by (auto simp: least_squares_def split: if_splits)
  then obtain u where u: "u \<in> set xs" "u \<noteq> mean xs"
    by (auto simp: sxx_zero_iff)
  have "\<exists>w\<in>set xs. w \<noteq> u"
  proof (rule ccontr)
    assume "\<not> (\<exists>w\<in>set xs. w \<noteq> u)"
    then have all: "\<forall>w\<in>set xs. w = u" by blast
    then have "xs = replicate (length xs) u"
      by (simp add: replicate_length_same)
    then have "sum_list xs = real (length xs) * u"
      by (metis sum_list_replicate)
    moreover have "xs \<noteq> []" using u by auto
    ultimately have "mean xs = u"
      by (simp add: mean_def)
    with u show False by simp
  qed
  then obtain w where w: "w \<in> set xs" "w \<noteq> u" by blast
  from zero u w have "(a0 - a) + (b0 - b) * u = 0" "(a0 - a) + (b0 - b) * w = 0"
    by blast+
  then have "(b0 - b) * (u - w) = 0"
    by (simp add: algebra_simps)
  with w have "b = b0" by simp
  with \<open>(a0 - a) + (b0 - b) * u = 0\<close> show ?thesis by simp
qed

subsection \<open>The cells of the two-stage estimation\<close>

lemma delta_i_other:
  "delta_i \<noteq> ''i''" "delta_i \<noteq> ''x''" "delta_i \<noteq> ''y''" "delta_i \<noteq> ''Intercept''"
  by (simp_all add: delta_i_def)

lemma regression_cell_Inr:
  "regression_cell f s = Inr s' \<longleftrightarrow> (\<exists>r. f (df s) = Inr r \<and> s' = s\<lparr>results := Some r\<rparr>)"
  by (auto simp: regression_cell_def split: sum.splits)

lemma derived_column_cell_Inr:
  "derived_column_cell s = Inr s' \<longleftrightarrow>
     (\<exists>icol ps d. map_of (df s) ''i'' = Some icol \<and> results s = Some ps \<and>
        map_of ps ''i'' = Some d \<and> s' = s\<lparr>df := setitem (df s) delta_i (map (\<lambda>v. v * d) icol)\<rparr>)"
  by (auto simp: derived_column_cell_def getitem_def split: sum.splits option.splits)

lemma two_stage_Inr:
  "two_stage est s = Inr s' \<longleftrightarrow>
     (\<exists>r1 d icol r2.
        est ''x'' ''i'' (df s) = Inr r1 \<and> map_of r1 ''i'' = Some d \<and>
        map_of (df s) ''i'' = Some icol \<and>
        est ''y'' delta_i (setitem (df s) delta_i (map (\<lambda>v. v * d) icol)) = Inr r2 \<and>
        s' = \<lparr>df = setitem (df s) delta_i (map (\<lambda>v. v * d) icol), results = Some r2\<rparr>)"
proof
  assume "two_stage est s = Inr s'"
  then obtain s1 s2 where s1: "regression_cell (est ''x'' ''i'') s = Inr s1"
    and s2: "derived_column_cell s1 = Inr s2"
    and s3: "regression_cell (est ''y'' delta_i) s2 = Inr s'"
    by (auto simp: two_stage_def split: sum.splits)
  from s1 obtain r1 where r1: "est ''x'' ''i'' (df s) = Inr r1" "s1 = s\<lparr>results := Some r1\<rparr>"
    by (auto simp: regression_cell_Inr)
  from s2 r1 obtain icol d where d: "map_of (df s) ''i'' = Some icol" "map_of r1 ''i'' = Some d"
    "s2 = s1\<lparr>df := setitem (df s) delta_i (map (\<lambda>v. v * d) icol)\<rparr>"
    by (auto simp: derived_column_cell_Inr)
  from s3 d r1 obtain r2 where
    "est ''y'' delta_i (setitem (df s) delta_i (map (\<lambda>v. v * d) icol)) = Inr r2"
    "s' = s2\<lparr>results := Some r2\<rparr>"
    by (auto simp: regression_cell_Inr)
  with r1 d show "\<exists>r1 d icol r2.
        est ''x'' ''i'' (df s) = Inr r1 \<and> map_of r1 ''i'' = Some d \<and>
        map_of (df s) ''i'' = Some icol \<and>
        est ''y'' delta_i (setitem (df s) delta_i (map (\<lambda>v. v * d) icol)) = Inr r2 \<and>
        s' = \<lparr>df = setitem (df s) delta_i (map (\<lambda>v. v * d) icol), results = Some r2\<rparr>"
    by auto
next
  assume "\<exists>r1 d icol r2.
        est ''x'' ''i'' (df s) = Inr r1 \<and> map_of r1 ''i'' = Some d \<and>
        map_of (df s) ''i'' = Some icol \<and>
        est ''y'' delta_i (setitem (df s) delta_i (map (\<lambda>v. v * d) icol)) = Inr r2 \<and>
        s' = \<lparr>df = setitem (df s) delta_i (map (\<lambda>v. v * d) icol), results = Some r2\<rparr>"
  then show "two_stage est s = Inr s'"
    by (auto simp: two_stage_def regression_cell_def derived_column_cell_def getitem_def)
qed

lemma derived_column_rows:
  "j < length icol \<Longrightarrow>
     cell (setitem t delta_i (map (\<lambda>v. v * d) icol)) delta_i j = d * icol ! j"
  by (simp add: cell_def setitem_def update_conv')

lemma example_two_stage:
  "two_stage ols_fit example_session =
     Inr \<lparr>df = [(''x'', [1, 3, 2]), (''i'', [1, 2, 3]), (''h'', [0, 1, 0]), (''y'', [3, 5, 10]),
                (delta_i, [1 / 2, 1, 3 / 2])],
          results = Some [(''Intercept'', -1), (delta_i, 7)]\<rparr>"
  by (simp add: example_session_def two_stage_def regression_cell_def derived_column_cell_def
      ols_fit_def least_squares_def sxy_def centred_def mean_def getitem_def setitem_def
      delta_i_def)

text \<open>
  C2. The two-stage estimation returns a session exactly when these steps succeed one
  after the other: the regression \<^verbatim>\<open>x ~ i\<close> on the table gives parameters with a
  coefficient \<open>d\<close> on \<open>i\<close>; the table gets the derived column, whose value in every row is
  \<open>d\<close> times the instrument's value in that row; the regression of \<open>y\<close> on the derived
  column, on the table with that column, gives the parameters the session reports.
\<close>

theorem two_stage_steps:
  "two_stage est s = Inr s' \<longleftrightarrow>
     (\<exists>r1 d icol r2.
        est ''x'' ''i'' (df s) = Inr r1 \<and> map_of r1 ''i'' = Some d \<and>
        map_of (df s) ''i'' = Some icol \<and>
        df s' = setitem (df s) delta_i (map (\<lambda>v. v * d) icol) \<and>
        (\<forall>j<length icol. cell (df s') delta_i j = d * cell (df s) ''i'' j) \<and>
        est ''y'' delta_i (df s') = Inr r2 \<and>
        results s' = Some r2)"
proof
  assume "two_stage est s = Inr s'"
  then obtain r1 d icol r2 where st:
    "est ''x'' ''i'' (df s) = Inr r1" "map_of r1 ''i'' = Some d" "map_of (df s) ''i'' = Some icol"
    "est ''y'' delta_i (setitem (df s) delta_i (map (\<lambda>v. v * d) icol)) = Inr r2"
    "s' = \<lparr>df = setitem (df s) delta_i (map (\<lambda>v. v * d) icol), results = Some r2\<rparr>"
    unfolding two_stage_Inr by blast
  have "\<forall>j<length icol. cell (df s') delta_i j = d * cell (df s) ''i'' j"
    using st(3,5) by (simp add: derived_column_rows) (simp add: cell_def)
  with st show "\<exists>r1 d icol r2.
        est ''x'' ''i'' (df s) = Inr r1 \<and> map_of r1 ''i'' = Some d \<and>
        map_of (df s) ''i'' = Some icol \<and>
        df s' = setitem (df s) delta_i (map (\<lambda>v. v * d) icol) \<and>
        (\<forall>j<length icol. cell (df s') delta_i j = d * cell (df s) ''i'' j) \<and>
        est ''y'' delta_i (df s') = Inr r2 \<and>
        results s' = Some r2"
    by auto
next
  assume "\<exists>r1 d icol r2.
        est ''x'' ''i'' (df s) = Inr r1 \<and> map_of r1 ''i'' = Some d \<and>
        map_of (df s) ''i'' = Some icol \<and>
        df s' = setitem (df s) delta_i (map (\<lambda>v. v * d) icol) \<and>
        (\<forall>j<length icol. cell (df s') delta_i j = d * cell (df s) ''i'' j) \<and>
        est ''y'' delta_i (df s') = Inr r2 \<and>
        results s' = Some r2"
  then obtain r1 d icol r2 where st:
    "est ''x'' ''i'' (df s) = Inr r1" "map_of r1 ''i'' = Some d" "map_of (df s) ''i'' = Some icol"
    "df s' = setitem (df s) delta_i (map (\<lambda>v. v * d) icol)"
    "est ''y'' delta_i (df s') = Inr r2" "results s' = Some r2"
    by blast
  then have "s' = \<lparr>df = setitem (df s) delta_i (map (\<lambda>v. v * d) icol), results = Some r2\<rparr>"
    by (cases s') simp
  with st show "two_stage est s = Inr s'"
    unfolding two_stage_Inr by auto
qed

theorem two_stage_steps_witness:
  "\<exists>s' r1 d icol r2.
     two_stage ols_fit example_session = Inr s' \<and>
     ols_fit ''x'' ''i'' (df example_session) = Inr r1 \<and> map_of r1 ''i'' = Some d \<and>
     map_of (df example_session) ''i'' = Some icol \<and>
     df s' = setitem (df example_session) delta_i (map (\<lambda>v. v * d) icol) \<and>
     cell (df s') delta_i 2 = d * cell (df example_session) ''i'' 2 \<and>
     ols_fit ''y'' delta_i (df s') = Inr r2 \<and> results s' = Some r2 \<and>
     map_of r2 delta_i = Some 7"
proof -
  let ?s' = "\<lparr>df = [(''x'', [1, 3, 2]), (''i'', [1, 2, 3]), (''h'', [0, 1, 0]), (''y'', [3, 5, 10]),
                (delta_i, [1 / 2, 1, 3 / 2])],
          results = Some [(''Intercept'', -1), (delta_i, 7)]\<rparr>"
  from example_two_stage two_stage_steps [of ols_fit example_session ?s']
  obtain r1 d icol r2 where st:
    "ols_fit ''x'' ''i'' (df example_session) = Inr r1" "map_of r1 ''i'' = Some d"
    "map_of (df example_session) ''i'' = Some icol"
    "df ?s' = setitem (df example_session) delta_i (map (\<lambda>v. v * d) icol)"
    "\<forall>j<length icol. cell (df ?s') delta_i j = d * cell (df example_session) ''i'' j"
    "ols_fit ''y'' delta_i (df ?s') = Inr r2" "results ?s' = Some r2"
    by blast
  from st(3) have "length icol = 3"
    by (auto simp: example_session_def)
  with st(5) have "cell (df ?s') delta_i 2 = d * cell (df example_session) ''i'' 2"
    by simp
  moreover from st(7) have "map_of r2 delta_i = Some 7"
    using delta_i_other by auto
  ultimately show ?thesis
    using example_two_stage st by blast
qed

subsection \<open>What the cells do to the table\<close>

lemma columns_setitem:
  "columns (setitem t v xs) = (if v \<in> set (columns t) then columns t else columns t @ [v])"
  by (simp add: columns_def setitem_def update_keys)

lemma map_of_setitem_other:
  "w \<noteq> v \<Longrightarrow> map_of (setitem t v xs) w = map_of t w"
  by (simp add: setitem_def update_conv')

lemma map_of_setitem_same:
  "map_of (setitem t v xs) v = Some xs"
  by (simp add: setitem_def update_conv')

text \<open>
  C7, as the claim states it, fails: run on the example table, whose columns are
  \<open>x, i, h, y\<close>, the two-stage estimation leaves a table with a fifth column.
\<close>

theorem table_immutable_counterexample:
  "columns (df example_session) = [''x'', ''i'', ''h'', ''y''] \<and>
   map_sum id (\<lambda>s. columns (df s)) (two_stage ols_fit example_session) =
     Inr [''x'', ''i'', ''h'', ''y'', delta_i] \<and>
   map_sum id (\<lambda>s. map_of (df s) delta_i) (two_stage ols_fit example_session) =
     Inr (Some [1 / 2, 1, 3 / 2])"
  unfolding example_two_stage
  by (simp add: columns_def example_session_def delta_i_def)

text \<open>
  C7, amended. A regression cell leaves the table as it found it and binds
  \<^verbatim>\<open>results\<close> to the fit of that table. The two-stage estimation changes the table in
  one place only: it sets the derived column to the instrument column times the
  coefficient on \<open>i\<close> that the regression \<^verbatim>\<open>x ~ i\<close> has fitted on the table as it was.
  The table it leaves is the old one with that column set: every other column keeps its
  name, its place and its values, and the derived column is new and last unless the
  table already had a column of that name.
\<close>

theorem table_changes:
  "(regression_cell f s = Inr s1 \<longrightarrow>
      df s1 = df s \<and> (\<exists>r. f (df s) = Inr r \<and> results s1 = Some r)) \<and>
   (two_stage est s = Inr s2 \<longrightarrow>
      (\<exists>r1 d icol.
         est ''x'' ''i'' (df s) = Inr r1 \<and> map_of r1 ''i'' = Some d \<and>
         map_of (df s) ''i'' = Some icol \<and>
         df s2 = setitem (df s) delta_i (map (\<lambda>v. v * d) icol) \<and>
         map_of (df s2) delta_i = Some (map (\<lambda>v. v * d) icol)) \<and>
      (\<forall>v. v \<noteq> delta_i \<longrightarrow> map_of (df s2) v = map_of (df s) v) \<and>
      columns (df s2) =
        (if delta_i \<in> set (columns (df s)) then columns (df s) else columns (df s) @ [delta_i]))"
proof (intro conjI impI)
  assume "regression_cell f s = Inr s1"
  then obtain r where r: "f (df s) = Inr r" "s1 = s\<lparr>results := Some r\<rparr>"
    unfolding regression_cell_Inr by blast
  then show "df s1 = df s"
    by simp
  from r show "\<exists>r. f (df s) = Inr r \<and> results s1 = Some r"
    by simp
next
  assume "two_stage est s = Inr s2"
  then obtain r1 d icol where r1: "est ''x'' ''i'' (df s) = Inr r1" "map_of r1 ''i'' = Some d"
    and i: "map_of (df s) ''i'' = Some icol"
    and t: "df s2 = setitem (df s) delta_i (map (\<lambda>v. v * d) icol)"
    unfolding two_stage_Inr by auto
  have same: "map_of (df s2) delta_i = Some (map (\<lambda>v. v * d) icol)"
    unfolding t by (rule map_of_setitem_same)
  from r1 i t same show "\<exists>r1 d icol.
         est ''x'' ''i'' (df s) = Inr r1 \<and> map_of r1 ''i'' = Some d \<and>
         map_of (df s) ''i'' = Some icol \<and>
         df s2 = setitem (df s) delta_i (map (\<lambda>v. v * d) icol) \<and>
         map_of (df s2) delta_i = Some (map (\<lambda>v. v * d) icol)"
    by blast
  show "\<forall>v. v \<noteq> delta_i \<longrightarrow> map_of (df s2) v = map_of (df s) v"
    using t by (simp add: map_of_setitem_other)
  show "columns (df s2) =
        (if delta_i \<in> set (columns (df s)) then columns (df s) else columns (df s) @ [delta_i])"
    using t by (simp only: columns_setitem)
qed

theorem table_changes_witness:
  "(\<exists>s1. regression_cell (ols_fit ''y'' ''x'') example_session = Inr s1 \<and>
          df s1 = df example_session \<and>
          results s1 = Some [(''Intercept'', 4), (''x'', 1)]) \<and>
   (\<exists>s2. two_stage ols_fit example_session = Inr s2 \<and>
          ols_fit ''x'' ''i'' (df example_session) = Inr [(''Intercept'', 1), (''i'', 1 / 2)] \<and>
          map_of (df s2) delta_i = Some [1 * (1 / 2), 2 * (1 / 2), 3 * (1 / 2)] \<and>
          map_of (df s2) ''y'' = Some [3, 5, 10] \<and>
          map_of (df s2) ''x'' = Some [1, 3, 2] \<and>
          map_of (df s2) ''i'' = Some [1, 2, 3] \<and>
          map_of (df s2) ''h'' = Some [0, 1, 0] \<and>
          columns (df s2) = [''x'', ''i'', ''h'', ''y'', delta_i])"
proof
  have fit: "ols_fit ''y'' ''x'' (df example_session) = Inr [(''Intercept'', 4), (''x'', 1)]"
    by (simp add: example_session_def ols_fit_def least_squares_def sxy_def centred_def mean_def)
  then obtain s1 where s1: "regression_cell (ols_fit ''y'' ''x'') example_session = Inr s1"
    by (simp add: regression_cell_def)
  from table_changes [of "ols_fit ''y'' ''x''" example_session s1] s1 fit
  have "df s1 = df example_session" "results s1 = Some [(''Intercept'', 4), (''x'', 1)]"
    by auto
  with s1 show "\<exists>s1. regression_cell (ols_fit ''y'' ''x'') example_session = Inr s1 \<and>
          df s1 = df example_session \<and>
          results s1 = Some [(''Intercept'', 4), (''x'', 1)]"
    by blast
next
  from example_two_stage obtain s2 where s2: "two_stage ols_fit example_session = Inr s2"
    by blast
  have fit: "ols_fit ''x'' ''i'' (df example_session) = Inr [(''Intercept'', 1), (''i'', 1 / 2)]"
    by (simp add: example_session_def ols_fit_def least_squares_def sxy_def centred_def mean_def)
  have cols: "map_of (df example_session) ''i'' = Some [1, 2, 3]"
    "map_of (df example_session) ''x'' = Some [1, 3, 2]"
    "map_of (df example_session) ''y'' = Some [3, 5, 10]"
    "map_of (df example_session) ''h'' = Some [0, 1, 0]"
    "columns (df example_session) = [''x'', ''i'', ''h'', ''y'']"
    by (simp_all add: example_session_def columns_def)
  have other: "delta_i \<noteq> ''h''" "delta_i \<notin> set [''x'', ''i'', ''h'', ''y'']"
    by (simp_all add: delta_i_def)
  note tc = table_changes [of _ example_session _ ols_fit s2, THEN conjunct2, rule_format, OF s2]
  from tc [THEN conjunct1] obtain r1 d icol where
    r1: "ols_fit ''x'' ''i'' (df example_session) = Inr r1" and d: "map_of r1 ''i'' = Some d"
    and ic: "map_of (df example_session) ''i'' = Some icol"
    and col: "map_of (df s2) delta_i = Some (map (\<lambda>v. v * d) icol)"
    by blast
  from r1 fit d have "d = 1 / 2"
    by auto
  moreover from ic cols(1) have "icol = [1, 2, 3]"
    by simp
  ultimately have derived: "map_of (df s2) delta_i = Some [1 * (1 / 2), 2 * (1 / 2), 3 * (1 / 2)]"
    using col by simp
  from tc [THEN conjunct2, THEN conjunct1] delta_i_other other(1) cols
  have kept: "map_of (df s2) ''y'' = Some [3, 5, 10]" "map_of (df s2) ''x'' = Some [1, 3, 2]"
    "map_of (df s2) ''i'' = Some [1, 2, 3]" "map_of (df s2) ''h'' = Some [0, 1, 0]"
    by metis+
  from tc [THEN conjunct2, THEN conjunct2] cols(5) other(2)
  have names: "columns (df s2) = [''x'', ''i'', ''h'', ''y'', delta_i]"
    by simp
  from s2 fit derived kept names
  show "\<exists>s2. two_stage ols_fit example_session = Inr s2 \<and>
          ols_fit ''x'' ''i'' (df example_session) = Inr [(''Intercept'', 1), (''i'', 1 / 2)] \<and>
          map_of (df s2) delta_i = Some [1 * (1 / 2), 2 * (1 / 2), 3 * (1 / 2)] \<and>
          map_of (df s2) ''y'' = Some [3, 5, 10] \<and>
          map_of (df s2) ''x'' = Some [1, 3, 2] \<and>
          map_of (df s2) ''i'' = Some [1, 2, 3] \<and>
          map_of (df s2) ''h'' = Some [0, 1, 0] \<and>
          columns (df s2) = [''x'', ''i'', ''h'', ''y'', delta_i]"
    by blast
qed

subsection \<open>The ratio of the two slopes\<close>

lemma ols_fit_value:
  assumes "map_of t resp = Some ys" and "map_of t pred = Some xs" and "sxy xs xs \<noteq> 0"
  shows "ols_fit resp pred t =
           Inr [(''Intercept'', mean ys - sxy xs ys / sxy xs xs * mean xs),
                (pred, sxy xs ys / sxy xs xs)]"
  using assms by (simp add: ols_fit_def least_squares_def)

text \<open>
  C10. On a table with columns \<open>x\<close>, \<open>i\<close> and \<open>y\<close> whose instrument column is not constant,
  both regressions on \<open>i\<close> have fitted slopes, \<open>d\<close> for \<open>x\<close> and \<open>b\<close> for \<open>y\<close>. When \<open>d\<close> is
  not zero the two-stage estimation succeeds, and the coefficient it reports on the
  derived column is \<open>b / d\<close>, the ratio of the two slopes; the intercept it reports is
  the intercept of \<open>y\<close> on \<open>i\<close>.
\<close>

theorem two_stage_ratio:
  assumes "map_of (df s) ''i'' = Some icol"
    and "map_of (df s) ''x'' = Some xcol"
    and "map_of (df s) ''y'' = Some ycol"
    and "u \<in> set icol" and "v \<in> set icol" and "u \<noteq> v"
  shows "\<exists>a1 d a2 b.
           ols_fit ''x'' ''i'' (df s) = Inr [(''Intercept'', a1), (''i'', d)] \<and>
           ols_fit ''y'' ''i'' (df s) = Inr [(''Intercept'', a2), (''i'', b)] \<and>
           (d \<noteq> 0 \<longrightarrow>
              (\<exists>s'. two_stage ols_fit s = Inr s' \<and>
                    results s' = Some [(''Intercept'', a2), (delta_i, b / d)]))"
proof -
  have sii: "sxy icol icol \<noteq> 0"
    using assms(4-6) by (rule not_constant_sxx)
  define d where "d = sxy icol xcol / sxy icol icol"
  define b where "b = sxy icol ycol / sxy icol icol"
  define a1 where "a1 = mean xcol - d * mean icol"
  define a2 where "a2 = mean ycol - b * mean icol"
  have f1: "ols_fit ''x'' ''i'' (df s) = Inr [(''Intercept'', a1), (''i'', d)]"
    using assms(1,2) sii by (simp add: ols_fit_value a1_def d_def)
  have f2: "ols_fit ''y'' ''i'' (df s) = Inr [(''Intercept'', a2), (''i'', b)]"
    using assms(1,3) sii by (simp add: ols_fit_value a2_def b_def)
  have second: "\<exists>s'. two_stage ols_fit s = Inr s' \<and>
                    results s' = Some [(''Intercept'', a2), (delta_i, b / d)]"
    if d: "d \<noteq> 0"
  proof -
    define col where "col = map (\<lambda>v. v * d) icol"
    define t where "t = setitem (df s) delta_i col"
    have y: "map_of t ''y'' = Some ycol"
      using assms(3) delta_i_other(3) by (simp add: t_def map_of_setitem_other)
    have c: "map_of t delta_i = Some col"
      unfolding t_def by (rule map_of_setitem_same)
    have scc: "sxy col col = d * d * sxy icol icol"
      unfolding col_def by (rule sxy_scaled_both)
    have scy: "sxy col ycol = d * sxy icol ycol"
      unfolding col_def by (rule sxy_scaled_left)
    have nz: "sxy col col \<noteq> 0"
      using d sii by (simp add: scc)
    have slope: "sxy col ycol / sxy col col = b / d"
      using d sii by (simp add: scc scy b_def)
    have "mean col = mean icol * d"
      unfolding col_def by (rule mean_scaled)
    then have icpt: "mean ycol - b / d * mean col = a2"
      using d by (simp add: a2_def)
    have "ols_fit ''y'' delta_i t = Inr [(''Intercept'', a2), (delta_i, b / d)]"
      using ols_fit_value [OF y c nz] by (simp only: slope icpt)
    moreover have "map_of [(''Intercept'', a1), (''i'', d)] ''i'' = Some d"
      by simp
    ultimately have "two_stage ols_fit s =
        Inr \<lparr>df = t, results = Some [(''Intercept'', a2), (delta_i, b / d)]\<rparr>"
      using f1 assms(1) unfolding two_stage_Inr t_def col_def by blast
    then show ?thesis by simp
  qed
  from f1 f2 second show ?thesis by blast
qed

theorem two_stage_ratio_witness:
  "\<exists>s'. ols_fit ''x'' ''i'' (df example_session) = Inr [(''Intercept'', 1), (''i'', 1 / 2)] \<and>
        ols_fit ''y'' ''i'' (df example_session) = Inr [(''Intercept'', -1), (''i'', 7 / 2)] \<and>
        two_stage ols_fit example_session = Inr s' \<and>
        results s' = Some [(''Intercept'', -1), (delta_i, (7 / 2) / (1 / 2))]"
proof -
  have cols: "map_of (df example_session) ''i'' = Some [1, 2, 3]"
    "map_of (df example_session) ''x'' = Some [1, 3, 2]"
    "map_of (df example_session) ''y'' = Some [3, 5, 10]"
    by (simp_all add: example_session_def)
  have mem: "(1 :: real) \<in> set [1, 2, 3]" "(2 :: real) \<in> set [1, 2, 3]" "(1 :: real) \<noteq> 2"
    by simp_all
  from two_stage_ratio [OF cols mem] obtain a1 d a2 b where
    f1: "ols_fit ''x'' ''i'' (df example_session) = Inr [(''Intercept'', a1), (''i'', d)]"
    and f2: "ols_fit ''y'' ''i'' (df example_session) = Inr [(''Intercept'', a2), (''i'', b)]"
    and st: "d \<noteq> 0 \<longrightarrow>
              (\<exists>s'. two_stage ols_fit example_session = Inr s' \<and>
                    results s' = Some [(''Intercept'', a2), (delta_i, b / d)])"
    by blast
  have v1: "ols_fit ''x'' ''i'' (df example_session) = Inr [(''Intercept'', 1), (''i'', 1 / 2)]"
    and v2: "ols_fit ''y'' ''i'' (df example_session) = Inr [(''Intercept'', -1), (''i'', 7 / 2)]"
    by (simp_all add: example_session_def ols_fit_def least_squares_def sxy_def centred_def
        mean_def)
  from f1 v1 f2 v2 have "d = 1 / 2" "a2 = -1" "b = 7 / 2"
    by simp_all
  with st v1 v2 show ?thesis
    by simp
qed

section \<open>Shared state and repeated runs\<close>

lemma noise_same_draws:
  "\<forall>i<n. g i = g' i \<Longrightarrow> fst (noise n g) = fst (noise n g')"
  by (simp add: noise_def)

lemma assign_same_draws:
  assumes "names k = names k'" and "\<forall>i<n. gen k i = gen k' i"
  shows "map_sum id names (assign n e k) = map_sum id names (assign n e k')"
  using assms noise_same_draws [of n "gen k" "gen k'"]
  by (simp add: assign_def split: sum.splits)

lemma assign_gen:
  "assign n e k = Inr k1 \<Longrightarrow> gen k1 = (\<lambda>i. gen k (n + i))"
  by (auto simp: assign_def snd_noise split: sum.splits)

lemma run_equations_same_draws:
  assumes "names k = names k'" and "\<forall>i<length es * n. gen k i = gen k' i"
  shows "map_sum id names (run_equations n es k) = map_sum id names (run_equations n es k')"
  using assms
proof (induction es arbitrary: k k')
  case Nil
  then show ?case by simp
next
  case (Cons e es)
  have first: "\<forall>i<n. gen k i = gen k' i"
    using Cons.prems(2) by simp
  note one = assign_same_draws [OF Cons.prems(1) first, of e]
  show ?case
  proof (cases "assign n e k")
    case (Inl err)
    with one have "assign n e k' = Inl err"
      by (cases "assign n e k'") simp_all
    with Inl show ?thesis by simp
  next
    case (Inr k1)
    with one obtain k1' where k1': "assign n e k' = Inr k1'" and same: "names k1 = names k1'"
      by (cases "assign n e k'") simp_all
    have "gen k1 i = gen k1' i" if "i < length es * n" for i
    proof -
      from that have "n + i < length (e # es) * n" by simp
      with Cons.prems(2) have "gen k (n + i) = gen k' (n + i)" by blast
      then show ?thesis
        using assign_gen [OF Inr] assign_gen [OF k1'] by simp
    qed
    then have "map_sum id names (run_equations n es k1) = map_sum id names (run_equations n es k1')"
      using same by (intro Cons.IH) simp_all
    with Inr k1' show ?thesis by (simp add: id_def)
  qed
qed

lemma simulate_same_draws:
  assumes "\<forall>i<length eqs * n. g i = g' i"
  shows "map_sum id fst (simulate n eqs cols g) = map_sum id fst (simulate n eqs cols g')"
proof -
  let ?k = "\<lparr>names = Map.empty, gen = g\<rparr>" and ?k' = "\<lparr>names = Map.empty, gen = g'\<rparr>"
  have "map_sum id names (run_equations n eqs ?k) = map_sum id names (run_equations n eqs ?k')"
    using assms by (intro run_equations_same_draws) simp_all
  then show ?thesis
    by (cases "run_equations n eqs ?k"; cases "run_equations n eqs ?k'")
       (auto simp: simulate_def split: sum.splits)
qed

lemma two_stage_again:
  assumes "two_stage ols_fit s = Inr s'"
  shows "two_stage ols_fit s' = Inr s'"
proof -
  from assms obtain r1 d icol r2 where st:
    "ols_fit ''x'' ''i'' (df s) = Inr r1" "map_of r1 ''i'' = Some d"
    "map_of (df s) ''i'' = Some icol"
    "ols_fit ''y'' delta_i (setitem (df s) delta_i (map (\<lambda>v. v * d) icol)) = Inr r2"
    "s' = \<lparr>df = setitem (df s) delta_i (map (\<lambda>v. v * d) icol), results = Some r2\<rparr>"
    unfolding two_stage_Inr by blast
  let ?t = "setitem (df s) delta_i (map (\<lambda>v. v * d) icol)"
  have x: "map_of ?t ''x'' = map_of (df s) ''x''" and i: "map_of ?t ''i'' = map_of (df s) ''i''"
    using delta_i_other by (simp_all add: map_of_setitem_other)
  then have "ols_fit ''x'' ''i'' ?t = ols_fit ''x'' ''i'' (df s)"
    by (simp add: ols_fit_def split: option.splits)
  moreover have "setitem ?t delta_i (map (\<lambda>v. v * d) icol) = ?t"
    by (simp add: setitem_def)
  ultimately show ?thesis
    using st i unfolding two_stage_Inr by auto
qed

lemma example_notebook02:
  "map_sum id fst (notebook02 ols_fit 2 (\<lambda>i. real (i ^ 3))) =
     Inr \<lparr>df = [(''x'', [96, 144]), (''i'', [32, 108]), (''h'', [0, 2]), (''y'', [936, 1465]),
                (delta_i, [384 / 19, 1296 / 19])],
          results = Some [(''Intercept'', 13552 / 19), (delta_i, 529 / 48)]\<rparr>"
  by (simp add: notebook02_def simulate02_def simulate_def equations02_def columns02_def
      assign_def term_value_def noise_def scale_def add_arrays_def DataFrame_def upt_0_2
      alpha_def beta_def gamma_def delta_def two_stage_def regression_cell_def
      derived_column_cell_def ols_fit_def least_squares_def sxy_def centred_def mean_def
      getitem_def setitem_def delta_i_def)

text \<open>
  C8, as the claim states it, fails: the calls are not functions of their explicit
  inputs alone. Two calls \<^verbatim>\<open>noise(2)\<close> in a row return different arrays, the second
  starting where the first left the generator. And the cell that writes the derived
  column, run on one and the same table, raises \<^verbatim>\<open>KeyError\<close> when the regression
  \<^verbatim>\<open>y ~ x\<close> was the last to bind \<^verbatim>\<open>results\<close>, and writes a fifth column into the table
  when the regression \<^verbatim>\<open>x ~ i\<close> was.
\<close>

theorem shared_state_counterexample:
  "fst (noise 2 (\<lambda>i. real i)) = [0, 1] \<and>
   fst (noise 2 (snd (noise 2 (\<lambda>i. real i)))) = [2, 3] \<and>
   regression_cell (ols_fit ''y'' ''x'') example_session =
     Inr (example_session\<lparr>results := Some [(''Intercept'', 4), (''x'', 1)]\<rparr>) \<and>
   regression_cell (ols_fit ''x'' ''i'') example_session =
     Inr (example_session\<lparr>results := Some [(''Intercept'', 1), (''i'', 1 / 2)]\<rparr>) \<and>
   derived_column_cell (example_session\<lparr>results := Some [(''Intercept'', 4), (''x'', 1)]\<rparr>) =
     Inl (KeyError ''i'') \<and>
   map_sum id (\<lambda>s. columns (df s))
     (derived_column_cell (example_session\<lparr>results := Some [(''Intercept'', 1), (''i'', 1 / 2)]\<rparr>)) =
     Inr [''x'', ''i'', ''h'', ''y'', delta_i]"
proof (intro conjI)
  show "fst (noise 2 (\<lambda>i. real i)) = [0, 1]"
    by (simp add: noise_def upt_0_2)
  show "fst (noise 2 (snd (noise 2 (\<lambda>i. real i)))) = [2, 3]"
    by (simp add: noise_def upt_0_2)
  show "regression_cell (ols_fit ''y'' ''x'') example_session =
     Inr (example_session\<lparr>results := Some [(''Intercept'', 4), (''x'', 1)]\<rparr>)"
    by (simp add: example_session_def regression_cell_def ols_fit_def least_squares_def sxy_def
        centred_def mean_def)
  show "regression_cell (ols_fit ''x'' ''i'') example_session =
     Inr (example_session\<lparr>results := Some [(''Intercept'', 1), (''i'', 1 / 2)]\<rparr>)"
    by (simp add: example_session_def regression_cell_def ols_fit_def least_squares_def sxy_def
        centred_def mean_def)
  show "derived_column_cell (example_session\<lparr>results := Some [(''Intercept'', 4), (''x'', 1)]\<rparr>) =
     Inl (KeyError ''i'')"
    by (simp add: example_session_def derived_column_cell_def getitem_def)
  show "map_sum id (\<lambda>s. columns (df s))
     (derived_column_cell (example_session\<lparr>results := Some [(''Intercept'', 1), (''i'', 1 / 2)]\<rparr>)) =
     Inr [''x'', ''i'', ''h'', ''y'', delta_i]"
    by (simp add: example_session_def derived_column_cell_def getitem_def setitem_def columns_def
        delta_i_def)
qed

lemma simulate_advances:
  assumes "well_scoped [] eqs" and "set cols = target ` set eqs"
  shows "map_sum id snd (simulate n eqs cols g) = Inr (\<lambda>i. g (length eqs * n + i))"
  using simulate_runs [OF assms, of n g] by auto

text \<open>
  C8, amended. The calls share state: \<^verbatim>\<open>noise\<close> reads and advances the generator, the
  regression cells rebind \<^verbatim>\<open>results\<close>, and the cell of the derived column reads
  \<^verbatim>\<open>results\<close> and writes into \<^verbatim>\<open>df\<close>. Given that state the outcome is determined. Two
  runs of the simulation cell of notebook 01 whose generators agree on the \<open>9 n\<close> draws
  the cell takes return the same table, and the cell leaves the generator advanced by
  exactly these draws. Two such runs of notebook 02, from the model cell to the end of
  the two-stage estimation, return the same session or the same error, whatever the
  estimator. The cell of the derived column succeeds exactly when the table has the
  column \<open>i\<close> and \<^verbatim>\<open>results\<close> holds a coefficient on \<open>i\<close>, and then leaves the session with
  the derived column set from these two. The two-stage estimation, run again on the
  session it has left, returns that session once more.
\<close>

theorem same_state_same_outputs:
  assumes "\<forall>i<9 * n. g i = g' i"
  shows "map_sum id fst (simulate01 n g) = map_sum id fst (simulate01 n g') \<and>
         map_sum id snd (simulate01 n g) = Inr (\<lambda>i. g (9 * n + i)) \<and>
         map_sum id fst (notebook02 est n g) = map_sum id fst (notebook02 est n g') \<and>
         (derived_column_cell s = Inr s' \<longleftrightarrow>
            (\<exists>icol ps d. map_of (df s) ''i'' = Some icol \<and> results s = Some ps \<and>
               map_of ps ''i'' = Some d \<and>
               s' = s\<lparr>df := setitem (df s) delta_i (map (\<lambda>v. v * d) icol)\<rparr>)) \<and>
         (two_stage ols_fit s = Inr s' \<longrightarrow> two_stage ols_fit s' = Inr s')"
proof (intro conjI impI)
  show "map_sum id fst (simulate01 n g) = map_sum id fst (simulate01 n g')"
    unfolding simulate01_def using assms
    by (intro simulate_same_draws) (simp add: length_equations01)
  show "map_sum id snd (simulate01 n g) = Inr (\<lambda>i. g (9 * n + i))"
    unfolding simulate01_def
    using simulate_advances [OF well_scoped01 targets01, of n g]
    by (simp add: length_equations01)
  have "map_sum id fst (simulate02 n g) = map_sum id fst (simulate02 n g')"
    unfolding simulate02_def using assms
    by (intro simulate_same_draws) (simp add: length_equations02)
  then show "map_sum id fst (notebook02 est n g) = map_sum id fst (notebook02 est n g')"
    by (cases "simulate02 n g"; cases "simulate02 n g'")
       (auto simp: notebook02_def split: sum.splits)
  show "derived_column_cell s = Inr s' \<longleftrightarrow>
            (\<exists>icol ps d. map_of (df s) ''i'' = Some icol \<and> results s = Some ps \<and>
               map_of ps ''i'' = Some d \<and>
               s' = s\<lparr>df := setitem (df s) delta_i (map (\<lambda>v. v * d) icol)\<rparr>)"
    by (rule derived_column_cell_Inr)
  show "two_stage ols_fit s' = Inr s'" if "two_stage ols_fit s = Inr s'"
    using that by (rule two_stage_again)
qed

theorem same_state_same_outputs_witness:
  "map_sum id fst (simulate01 2 (\<lambda>i. real (i ^ 3))) =
     map_sum id fst (simulate01 2 (\<lambda>i. if i < 18 then real (i ^ 3) else 0)) \<and>
   map_sum id snd (simulate01 2 (\<lambda>i. real (i ^ 3))) = Inr (\<lambda>i. real ((18 + i) ^ 3)) \<and>
   map_sum id fst (notebook02 ols_fit 2 (\<lambda>i. if i < 18 then real (i ^ 3) else 0)) =
     Inr \<lparr>df = [(''x'', [96, 144]), (''i'', [32, 108]), (''h'', [0, 2]), (''y'', [936, 1465]),
                (delta_i, [384 / 19, 1296 / 19])],
          results = Some [(''Intercept'', 13552 / 19), (delta_i, 529 / 48)]\<rparr> \<and>
   (\<exists>s'. two_stage ols_fit example_session = Inr s' \<and> two_stage ols_fit s' = Inr s')"
proof -
  have "\<forall>i<9 * 2. real (i ^ 3) = (if i < 18 then real (i ^ 3) else 0)"
    by simp
  from same_state_same_outputs [OF this, of ols_fit example_session]
    example_two_stage example_notebook02
  show ?thesis by auto
qed

end
